theory Spec2Isabelle
  imports Main "HOL-Library.Word" "HOL-Library.Sublist"
begin

section \<open>Text formatting\<close>

text \<open>
  The C sources build file names, SQL text and list lines with printf-style formats.
  Strings are byte lists; \<open>%u\<close> and \<open>%d\<close> are rendered in decimal.
\<close>

definition dquote :: string where
  "dquote = [CHR 0x22]"

definition newline :: string where
  "newline = [CHR 0x0A]"

definition digit_char :: "nat \<Rightarrow> char" where
  "digit_char d = ''0123456789'' ! d"

text \<open>The decimal digits of a number, most significant first, in front of \<open>acc\<close>.\<close>

fun decimal_digits :: "nat \<Rightarrow> nat list \<Rightarrow> nat list" where
  "decimal_digits n acc =
     (if n < 10 then n # acc else decimal_digits (n div 10) (n mod 10 # acc))"

declare decimal_digits.simps [simp del]

definition fmt_nat :: "nat \<Rightarrow> string" where
  "fmt_nat n = map digit_char (decimal_digits n [])"

definition fmt_int :: "int \<Rightarrow> string" where
  "fmt_int i = (if 0 \<le> i then fmt_nat (nat i) else CHR ''-'' # fmt_nat (nat (- i)))"

text \<open>\<open>%u\<close> of a \<open>uint32_t\<close> and \<open>%d\<close> of an \<open>int\<close>.\<close>

definition fmt_u :: "32 word \<Rightarrow> string" where
  "fmt_u x = fmt_nat (unat x)"

definition fmt_d :: "32 word \<Rightarrow> string" where
  "fmt_d x = fmt_int (sint x)"

text \<open>
  \<open>sformat(buf, size, ...)\<close> writes into a buffer of \<open>count\<close> bytes: at most
  \<open>count - 1\<close> characters are kept (the rest is cut off, and the run goes on).
\<close>

definition sformat :: "nat \<Rightarrow> string \<Rightarrow> string" where
  "sformat count s = take (count - 1) s"

text \<open>PostgreSQL's path buffer size, \<open>MAXPGPATH\<close> of \<open>pg_config_manual.h\<close>.\<close>

definition MAXPGPATH :: nat where
  "MAXPGPATH = 1024"

section \<open>Data model of the schema dump/restore driver\<close>

datatype PostgresDumpSection =
    PG_DUMP_SECTION_ALL
  | PG_DUMP_SECTION_SCHEMA
  | PG_DUMP_SECTION_PRE_DATA
  | PG_DUMP_SECTION_POST_DATA

record SourceTable =
  st_oid :: "32 word"
  st_nspname :: string
  st_relname :: string

record SourceSchema =
  ss_nspname :: string

record ArchiveContentItem =
  dumpId :: "32 word"
  catalogOid :: "32 word"
  objectOid :: "32 word"
  desc :: string
  restoreListName :: string

record DoneFilePaths =
  preDataDump :: string
  postDataDump :: string
  preDataRestore :: string
  postDataRestore :: string

record CopyFilePaths =
  idxdir :: string
  done_paths :: DoneFilePaths

record DumpPaths =
  preFilename :: string
  postFilename :: string
  preListFilename :: string
  postListFilename :: string

record RestoreOptions =
  dropIfExists :: bool

record SourceFilters =
  includeOnlySchemaList :: "SourceSchema list"

record SourceExtensionConfig =
  sec_nspname :: string
  sec_relname :: string
  sec_condition :: string

record SourceExtension =
  extname :: string
  config :: "SourceExtensionConfig list"

record SourceCatalog =
  extensionArray :: "SourceExtension list"

record ConnStrings =
  cs_source_pguri :: string
  cs_target_pguri :: string

record CopyDataSpec =
  cfPaths :: CopyFilePaths
  dumpPaths :: DumpPaths
  source_pguri :: string
  target_pguri :: string
  connStrings :: ConnStrings
  filters :: SourceFilters
  restoreOptions :: RestoreOptions
  skipExtensions :: bool
  sourceTableArray :: "SourceTable list"
  catalog :: SourceCatalog

section \<open>The world the driver runs in\<close>

text \<open>
  A \<open>PGSQL\<close> is a connection handle: \<open>pgsql_init\<close> fills it with the connection
  string and the side of the migration it talks to, and every later call on the handle
  goes to that database.
\<close>

datatype ConnectionType = PGSQL_CONN_SOURCE | PGSQL_CONN_TARGET

record PGSQL =
  connectionString :: string
  connectionType :: ConnectionType

text \<open>
  What the driver does to its surroundings is recorded as a list of events, in the order
  of the calls the C code makes: external programs run, connections opened, SQL sent over
  a connection, files written to the work directory.
\<close>

datatype event =
    EvPgDump string string bool
  | EvPgRestoreList string bool
  | EvPgRestoreDb string string bool
  | EvConnect PGSQL bool
  | EvExecute PGSQL string bool
  | EvPgCopy string string bool
  | EvFinish PGSQL
  | EvWriteFile string bool

record world =
  files :: "string \<Rightarrow> string option"
  trace :: "event list"

text \<open>
  The collaborators whose code is not part of these files are parameters: each answers
  from the world as it is at the call. \<open>write_fails\<close> says whether a write to a path
  of the work directory fails; \<open>createPQExpBuffer_fails\<close> whether allocating a
  \<open>PQExpBuffer\<close> fails, \<open>append_breaks_buffer\<close> whether memory runs out while the
  given text is appended to one.
\<close>

record env =
  pg_dump_succeeds :: "world \<Rightarrow> string \<Rightarrow> string \<Rightarrow> string \<Rightarrow> bool"
  pg_dump_output :: "world \<Rightarrow> string \<Rightarrow> string"
  pg_restore_list_result :: "world \<Rightarrow> string \<Rightarrow> ArchiveContentItem list option"
  pg_restore_succeeds :: "world \<Rightarrow> string \<Rightarrow> string \<Rightarrow> bool"
  copydb_objectid_is_filtered_out :: "CopyDataSpec \<Rightarrow> 32 word \<Rightarrow> string \<Rightarrow> bool"
  pgsql_init_succeeds :: "world \<Rightarrow> PGSQL \<Rightarrow> bool"
  pgsql_execute_succeeds :: "world \<Rightarrow> PGSQL \<Rightarrow> string \<Rightarrow> bool"
  pg_copy_succeeds :: "world \<Rightarrow> string \<Rightarrow> string \<Rightarrow> bool"
  write_fails :: "world \<Rightarrow> string \<Rightarrow> bool"
  createPQExpBuffer_fails :: "world \<Rightarrow> bool"
  append_breaks_buffer :: "world \<Rightarrow> string \<Rightarrow> bool"

definition log_event :: "event \<Rightarrow> world \<Rightarrow> world" where
  "log_event ev w = w\<lparr>trace := trace w @ [ev]\<rparr>"

definition file_exists :: "world \<Rightarrow> string \<Rightarrow> bool" where
  "file_exists w path = (files w path \<noteq> None)"

text \<open>
  Modelled from the spec: \<open>write_file\<close> is not among the source files. A write either
  creates the file with the given contents or fails and leaves the work directory as it
  was ("a partial file must not count as done").
\<close>

definition write_file :: "env \<Rightarrow> string \<Rightarrow> string \<Rightarrow> world \<Rightarrow> bool \<times> world" where
  "write_file e contents path w =
     (if write_fails e w path then (False, log_event (EvWriteFile path False) w)
      else (True, log_event (EvWriteFile path True) (w\<lparr>files := (files w)(path \<mapsto> contents)\<rparr>)))"

text \<open>
  The external dumper, run under a snapshot for one section: on success the archive file
  exists afterwards.
\<close>

definition pg_dump_db :: "env \<Rightarrow> string \<Rightarrow> string \<Rightarrow> string \<Rightarrow> world \<Rightarrow> bool \<times> world" where
  "pg_dump_db e snapshot sect filename w =
     (if pg_dump_succeeds e w snapshot sect filename
      then (True, log_event (EvPgDump sect filename True)
                    (w\<lparr>files := (files w)(filename \<mapsto> pg_dump_output e w sect)\<rparr>))
      else (False, log_event (EvPgDump sect filename False) w))"

definition pg_restore_list :: "env \<Rightarrow> string \<Rightarrow> world \<Rightarrow> ArchiveContentItem list option \<times> world" where
  "pg_restore_list e dumpFilename w =
     (case pg_restore_list_result e w dumpFilename of
        None \<Rightarrow> (None, log_event (EvPgRestoreList dumpFilename False) w)
      | Some contents \<Rightarrow> (Some contents, log_event (EvPgRestoreList dumpFilename True) w))"

definition pg_restore_db :: "env \<Rightarrow> string \<Rightarrow> string \<Rightarrow> world \<Rightarrow> bool \<times> world" where
  "pg_restore_db e dumpFilename listFilename w =
     (let ok = pg_restore_succeeds e w dumpFilename listFilename
      in (ok, log_event (EvPgRestoreDb dumpFilename listFilename ok) w))"

text \<open>
  \<open>pgsql_init(&pgsql, url, connectionType)\<close> returns, next to its verdict, the
  handle it filled in; \<open>pgsql_execute(&pgsql, sql)\<close> sends the SQL over the handle
  it is given.
\<close>

definition pgsql_init ::
  "env \<Rightarrow> string \<Rightarrow> ConnectionType \<Rightarrow> world \<Rightarrow> bool \<times> PGSQL \<times> world" where
  "pgsql_init e url connType w =
     (let pgsql = \<lparr>connectionString = url, connectionType = connType\<rparr>;
          ok = pgsql_init_succeeds e w pgsql
      in (ok, pgsql, log_event (EvConnect pgsql ok) w))"

definition pgsql_execute :: "env \<Rightarrow> PGSQL \<Rightarrow> string \<Rightarrow> world \<Rightarrow> bool \<times> world" where
  "pgsql_execute e pgsql sql w =
     (let ok = pgsql_execute_succeeds e w pgsql sql
      in (ok, log_event (EvExecute pgsql sql ok) w))"

text \<open>
  \<open>PQExpBufferBroken\<close> after the text \<open>s\<close> was appended to a fresh buffer: the
  buffer is broken when it could not be allocated or an append ran out of memory.
\<close>

definition PQExpBufferBroken :: "env \<Rightarrow> world \<Rightarrow> string \<Rightarrow> bool" where
  "PQExpBufferBroken e w s = (createPQExpBuffer_fails e w \<or> append_breaks_buffer e w s)"

text \<open>
  \<open>pg_copy(src, dst, srcQname, dstQname, truncate)\<close> streams the rows of the source
  query into the target table; \<open>pgsql_finish\<close> closes a connection.
\<close>

definition pg_copy :: "env \<Rightarrow> string \<Rightarrow> string \<Rightarrow> world \<Rightarrow> bool \<times> world" where
  "pg_copy e srcQname dstQname w =
     (let ok = pg_copy_succeeds e w srcQname dstQname
      in (ok, log_event (EvPgCopy srcQname dstQname ok) w))"

definition pgsql_finish :: "PGSQL \<Rightarrow> world \<Rightarrow> world" where
  "pgsql_finish pgsql w = log_event (EvFinish pgsql) w"

section \<open>dump\_restore.c\<close>

definition copydb_objectid_has_been_processed_already :: "CopyDataSpec \<Rightarrow> world \<Rightarrow> 32 word \<Rightarrow> bool" where
  "copydb_objectid_has_been_processed_already specs w oid =
     file_exists w (sformat MAXPGPATH (idxdir (cfPaths specs) @ ''/'' @ fmt_u oid @ ''.done''))"

subsection \<open>copydb\_target\_drop\_tables\<close>

text \<open>The loop body appends \<open>"%s \"%s\".\"%s\""\<close> with \<open>" "\<close> first and \<open>","\<close> after.\<close>

fun drop_tables_loop :: "nat \<Rightarrow> SourceTable list \<Rightarrow> string \<Rightarrow> string" where
  "drop_tables_loop tableIndex [] query = query"
| "drop_tables_loop tableIndex (source # rest) query =
     drop_tables_loop (Suc tableIndex) rest
       (query @ (if tableIndex = 0 then '' '' else '','') @ '' '' @
          dquote @ st_nspname source @ dquote @ ''.'' @ dquote @ st_relname source @ dquote)"

definition drop_tables_query :: "SourceTable list \<Rightarrow> string" where
  "drop_tables_query tableArray =
     drop_tables_loop 0 tableArray ''DROP TABLE IF EXISTS'' @ ''CASCADE''"

definition copydb_target_drop_tables :: "env \<Rightarrow> CopyDataSpec \<Rightarrow> world \<Rightarrow> bool \<times> world" where
  "copydb_target_drop_tables e specs w =
     (let tableArray = sourceTableArray specs in
      if length tableArray = 0 then (True, w)
      else
        let query = drop_tables_query tableArray in
        if PQExpBufferBroken e w query then (False, w)
        else
          let (connected, dst, w1) = pgsql_init e (target_pguri specs) PGSQL_CONN_TARGET w in
          if \<not> connected then (False, w1)
          else pgsql_execute e dst query w1)"

subsection \<open>copydb\_target\_prepare\_namespaces\<close>

fun prepare_namespaces_loop :: "SourceSchema list \<Rightarrow> string \<Rightarrow> string" where
  "prepare_namespaces_loop [] query = query"
| "prepare_namespaces_loop (schema # rest) query =
     prepare_namespaces_loop rest
       (query @ ''CREATE SCHEMA IF NOT EXISTS '' @ dquote @ ss_nspname schema @ dquote @ '';'')"

definition copydb_target_prepare_namespaces :: "env \<Rightarrow> CopyDataSpec \<Rightarrow> world \<Rightarrow> bool \<times> world" where
  "copydb_target_prepare_namespaces e specs w =
     (let query = prepare_namespaces_loop (includeOnlySchemaList (filters specs)) [] in
      if PQExpBufferBroken e w query then (False, w)
      else
        let (connected, dst, w1) = pgsql_init e (target_pguri specs) PGSQL_CONN_TARGET w in
        if \<not> connected then (False, w1)
        else pgsql_execute e dst query w1)"

subsection \<open>copydb\_write\_restore\_list\<close>

text \<open>
  One line per archive entry, \<open>"%s%d; %u %u %s %s\n"\<close>, the prefix being \<open>";"\<close> when
  the entry's object was processed already or is filtered out.
\<close>

fun restore_list_loop ::
  "env \<Rightarrow> CopyDataSpec \<Rightarrow> world \<Rightarrow> ArchiveContentItem list \<Rightarrow> string \<Rightarrow> string" where
  "restore_list_loop e specs w [] listContents = listContents"
| "restore_list_loop e specs w (item # rest) listContents =
     (let oid = objectOid item;
          name = restoreListName item;
          prefix =
            (if copydb_objectid_has_been_processed_already specs w oid then '';''
             else if copydb_objectid_is_filtered_out e specs oid name then '';''
             else [])
      in restore_list_loop e specs w rest
           (listContents @ prefix @ fmt_d (dumpId item) @ ''; '' @ fmt_u (catalogOid item) @ '' '' @
              fmt_u (objectOid item) @ '' '' @ desc item @ '' '' @ restoreListName item @ newline))"

text \<open>
  The \<open>switch\<close> at the head of the function: the archive to list and the list file to
  write, or nothing for a section other than pre-data and post-data (the \<open>default\<close> case).
\<close>

definition restore_list_filenames ::
  "CopyDataSpec \<Rightarrow> PostgresDumpSection \<Rightarrow> (string \<times> string) option" where
  "restore_list_filenames specs section =
     (case section of
        PG_DUMP_SECTION_PRE_DATA \<Rightarrow>
          Some (preFilename (dumpPaths specs), preListFilename (dumpPaths specs))
      | PG_DUMP_SECTION_POST_DATA \<Rightarrow>
          Some (postFilename (dumpPaths specs), postListFilename (dumpPaths specs))
      | _ \<Rightarrow> None)"

definition copydb_write_restore_list ::
  "env \<Rightarrow> CopyDataSpec \<Rightarrow> PostgresDumpSection \<Rightarrow> world \<Rightarrow> bool \<times> world" where
  "copydb_write_restore_list e specs section w =
     (case restore_list_filenames specs section of
        None \<Rightarrow> (False, w)
      | Some (dumpFilename, listFilename) \<Rightarrow>
          (case pg_restore_list e dumpFilename w of
             (None, w1) \<Rightarrow> (False, w1)
           | (Some contents, w1) \<Rightarrow>
               if createPQExpBuffer_fails e w1 then (False, w1)
               else
                 let listContents = restore_list_loop e specs w1 contents [] in
                 if PQExpBufferBroken e w1 listContents then (False, w1)
                 else write_file e listContents listFilename w1))"

subsection \<open>copydb\_dump\_source\_schema\<close>

text \<open>
  The function holds the same block twice, once for the pre-data section and once for the
  post-data section: skip \<open>pg_dump\<close> when the done file exists, else run it, and then
  write the done file.
\<close>

definition dump_section ::
  "env \<Rightarrow> string \<Rightarrow> string \<Rightarrow> string \<Rightarrow> string \<Rightarrow> world \<Rightarrow> bool \<times> world" where
  "dump_section e snapshot sect doneFile dumpFilename w =
     (let (dumped, w1) =
            (if file_exists w doneFile then (True, w)
             else pg_dump_db e snapshot sect dumpFilename w)
      in if \<not> dumped then (False, w1) else write_file e [] doneFile w1)"

definition copydb_dump_source_schema ::
  "env \<Rightarrow> CopyDataSpec \<Rightarrow> string \<Rightarrow> PostgresDumpSection \<Rightarrow> world \<Rightarrow> bool \<times> world" where
  "copydb_dump_source_schema e specs snapshot section w =
     (let (pre_ok, w1) =
            (if section = PG_DUMP_SECTION_SCHEMA \<or> section = PG_DUMP_SECTION_PRE_DATA \<or>
                section = PG_DUMP_SECTION_ALL
             then dump_section e snapshot ''pre-data'' (preDataDump (done_paths (cfPaths specs)))
                    (preFilename (dumpPaths specs)) w
             else (True, w))
      in if \<not> pre_ok then (False, w1)
         else if section = PG_DUMP_SECTION_SCHEMA \<or> section = PG_DUMP_SECTION_POST_DATA \<or>
                 section = PG_DUMP_SECTION_ALL
         then dump_section e snapshot ''post-data'' (postDataDump (done_paths (cfPaths specs)))
                (postFilename (dumpPaths specs)) w1
         else (True, w1))"

subsection \<open>copydb\_target\_prepare\_schema and copydb\_target\_finalize\_schema\<close>

definition copydb_target_prepare_schema :: "env \<Rightarrow> CopyDataSpec \<Rightarrow> world \<Rightarrow> bool \<times> world" where
  "copydb_target_prepare_schema e specs w =
     (if \<not> file_exists w (preFilename (dumpPaths specs)) then (False, w)
      else if file_exists w (preDataRestore (done_paths (cfPaths specs))) then (True, w)
      else
        let (listed, w1) = copydb_write_restore_list e specs PG_DUMP_SECTION_PRE_DATA w in
        if \<not> listed then (True, w1)
        else
          let (dropped, w2) =
                (if dropIfExists (restoreOptions specs) then copydb_target_drop_tables e specs w1
                 else (True, w1))
          in if \<not> dropped then (False, w2)
          else
            let (prepared, w3) =
                  (if length (includeOnlySchemaList (filters specs)) > 0
                   then copydb_target_prepare_namespaces e specs w2
                   else (True, w2))
            in if \<not> prepared then (False, w3)
            else
              let (restored, w4) =
                    pg_restore_db e (preFilename (dumpPaths specs))
                      (preListFilename (dumpPaths specs)) w3
              in if \<not> restored then (False, w4)
                 else write_file e [] (preDataRestore (done_paths (cfPaths specs))) w4)"

definition copydb_target_finalize_schema :: "env \<Rightarrow> CopyDataSpec \<Rightarrow> world \<Rightarrow> bool \<times> world" where
  "copydb_target_finalize_schema e specs w =
     (if \<not> file_exists w (postFilename (dumpPaths specs)) then (False, w)
      else if file_exists w (postDataRestore (done_paths (cfPaths specs))) then (True, w)
      else
        let (listed, w1) = copydb_write_restore_list e specs PG_DUMP_SECTION_POST_DATA w in
        if \<not> listed then (True, w1)
        else
          let (restored, w2) =
                pg_restore_db e (postFilename (dumpPaths specs))
                  (postListFilename (dumpPaths specs)) w1
          in if \<not> restored then (False, w2)
             else write_file e [] (postDataRestore (done_paths (cfPaths specs))) w2)"

section \<open>extensions.c\<close>

text \<open>
  Buffer sizes of the two formatted strings: \<open>BUFSIZE\<close> of the program's defaults and
  PostgreSQL's \<open>NAMEDATALEN\<close>.
\<close>

definition BUFSIZE :: nat where
  "BUFSIZE = 1024"

definition NAMEDATALEN :: nat where
  "NAMEDATALEN = 64"

text \<open>
  Modelled from the spec: the exit codes are not among the source files; the
  specification gives \<open>0\<close> for success or quit and \<open>12\<close> for an internal error.
\<close>

definition EXIT_CODE_QUIT :: int where
  "EXIT_CODE_QUIT = 0"

definition EXIT_CODE_INTERNAL_ERROR :: int where
  "EXIT_CODE_INTERNAL_ERROR = 12"

subsection \<open>copydb\_copy\_extensions\<close>

text \<open>
  The inner loop over an extension's configuration tables: \<open>False\<close> is the early
  \<open>return false\<close> when a copy fails.
\<close>

fun copy_extension_config ::
  "env \<Rightarrow> SourceExtensionConfig list \<Rightarrow> world \<Rightarrow> bool \<times> world" where
  "copy_extension_config e [] w = (True, w)"
| "copy_extension_config e (cfg # rest) w =
     (let qname = sformat (NAMEDATALEN * 2 + 5)
                    (dquote @ sec_nspname cfg @ dquote @ ''.'' @ dquote @ sec_relname cfg @ dquote);
          sqlLen = length ''(SELECT * FROM %s %s)'' + length qname + length (sec_condition cfg) + 1;
          sql = sformat sqlLen (''(SELECT * FROM '' @ qname @ '' '' @ sec_condition cfg @ '')'');
          (copied, w1) = pg_copy e sql qname w
      in if \<not> copied then (False, w1) else copy_extension_config e rest w1)"

text \<open>
  The outer loop: the number of errors counted so far is threaded through; \<open>None\<close>
  is the early \<open>return false\<close>.
\<close>

fun copy_extensions_loop ::
  "env \<Rightarrow> PGSQL \<Rightarrow> bool \<Rightarrow> SourceExtension list \<Rightarrow> nat \<Rightarrow> world \<Rightarrow> nat option \<times> world" where
  "copy_extensions_loop e dst createExtensions [] errors w = (Some errors, w)"
| "copy_extensions_loop e dst createExtensions (ext # rest) errors w =
     (let (errors1, w1) =
            (if createExtensions
             then
               let sql = sformat BUFSIZE
                           (''create extension if not exists '' @ dquote @ extname ext @ dquote @
                            '' cascade'');
                   (created, w') = pgsql_execute e dst sql w
               in (if \<not> created then errors + 1 else errors, w')
             else (errors, w));
          (copied, w2) =
            (if length (config ext) > 0 then copy_extension_config e (config ext) w1
             else (True, w1))
      in if \<not> copied then (None, w2)
         else copy_extensions_loop e dst createExtensions rest errors1 w2)"

definition copydb_copy_extensions :: "env \<Rightarrow> CopyDataSpec \<Rightarrow> bool \<Rightarrow> world \<Rightarrow> bool \<times> world" where
  "copydb_copy_extensions e copySpecs createExtensions w =
     (let (connected, dst, w1) =
            pgsql_init e (cs_target_pguri (connStrings copySpecs)) PGSQL_CONN_TARGET w in
      if \<not> connected then (False, w1)
      else
        (case copy_extensions_loop e dst createExtensions (extensionArray (catalog copySpecs)) 0 w1 of
           (None, w2) \<Rightarrow> (False, w2)
         | (Some errors, w2) \<Rightarrow> (errors = 0, pgsql_finish dst w2)))"

subsection \<open>copydb\_start\_extension\_data\_process\<close>

text \<open>
  \<open>fork()\<close> returns in two processes. The function is modelled as seen from one of
  them: \<open>fpid\<close> is what \<open>fork\<close> returned there (\<open>-1\<close> in the caller when the
  fork failed, the child's pid in the caller when it succeeded, \<open>0\<close> in the child).
  The call either returns a value to its caller or ends the process with an exit code.
\<close>

datatype call_result = Returned bool | Exited int

definition copydb_start_extension_data_process ::
  "env \<Rightarrow> CopyDataSpec \<Rightarrow> int \<Rightarrow> world \<Rightarrow> call_result \<times> world" where
  "copydb_start_extension_data_process e specs fpid w =
     (if skipExtensions specs then (Returned True, w)
      else if fpid = - 1 then (Returned False, w)
      else if fpid = 0 then
        (let createExtensions = False;
             (copied, w1) = copydb_copy_extensions e specs createExtensions w
         in if \<not> copied then (Exited EXIT_CODE_INTERNAL_ERROR, w1)
            else (Exited EXIT_CODE_QUIT, w1))
      else (Returned True, w))"

section \<open>An example run of the driver\<close>

text \<open>
  A small run used to evaluate the definitions on concrete inputs: an archive of three
  entries, of which the index with oid 7 was built already (its done file exists) and the
  table with oid 8 is excluded by the filters.
\<close>

definition ex_contents :: "ArchiveContentItem list" where
  "ex_contents =
     [ \<lparr> dumpId = 3, catalogOid = 1259, objectOid = 7, desc = ''INDEX'',
         restoreListName = ''public i1 owner'' \<rparr>,
       \<lparr> dumpId = 4, catalogOid = 1259, objectOid = 8, desc = ''TABLE'',
         restoreListName = ''s secret owner'' \<rparr>,
       \<lparr> dumpId = 5, catalogOid = 1259, objectOid = 9, desc = ''TABLE'',
         restoreListName = ''public t owner'' \<rparr> ]"

definition ex_env :: env where
  "ex_env =
     \<lparr> pg_dump_succeeds = (\<lambda>w snapshot sect filename. True),
       pg_dump_output = (\<lambda>w sect. ''archive''),
       pg_restore_list_result = (\<lambda>w dumpFilename. Some ex_contents),
       pg_restore_succeeds = (\<lambda>w dumpFilename listFilename. True),
       copydb_objectid_is_filtered_out = (\<lambda>specs oid name. oid = 8),
       pgsql_init_succeeds = (\<lambda>w pgsql. True),
       pgsql_execute_succeeds = (\<lambda>w pgsql sql. True),
       pg_copy_succeeds = (\<lambda>w srcQname dstQname. True),
       write_fails = (\<lambda>w path. False),
       createPQExpBuffer_fails = (\<lambda>w. False),
       append_breaks_buffer = (\<lambda>w s. False) \<rparr>"

text \<open>The same surroundings, but the two list files cannot be written.\<close>

definition ex_env_list_unwritable :: env where
  "ex_env_list_unwritable =
     ex_env \<lparr> write_fails := (\<lambda>w path. path = ''pre.list'' \<or> path = ''post.list'') \<rparr>"

text \<open>The same surroundings, but both external tools fail.\<close>

definition ex_env_tools_fail :: env where
  "ex_env_tools_fail =
     ex_env \<lparr> pg_dump_succeeds := (\<lambda>w snapshot sect filename. False),
              pg_restore_succeeds := (\<lambda>w dumpFilename listFilename. False) \<rparr>"

definition ex_specs :: CopyDataSpec where
  "ex_specs =
     \<lparr> cfPaths = \<lparr> idxdir = ''idx'',
                   done_paths = \<lparr> preDataDump = ''pre-dump.done'', postDataDump = ''post-dump.done'',
                                  preDataRestore = ''pre-restore.done'',
                                  postDataRestore = ''post-restore.done'' \<rparr> \<rparr>,
       dumpPaths = \<lparr> preFilename = ''pre.dump'', postFilename = ''post.dump'',
                     preListFilename = ''pre.list'', postListFilename = ''post.list'' \<rparr>,
       source_pguri = ''src'',
       target_pguri = ''dst'',
       connStrings = \<lparr> cs_source_pguri = ''src'', cs_target_pguri = ''dst'' \<rparr>,
       filters = \<lparr> includeOnlySchemaList = [] \<rparr>,
       restoreOptions = \<lparr> dropIfExists = True \<rparr>,
       skipExtensions = False,
       sourceTableArray = [],
       catalog = \<lparr> extensionArray = [] \<rparr> \<rparr>"

text \<open>The same run with two tables to copy and two schemas named by the filters.\<close>

definition ex_specs_tables :: CopyDataSpec where
  "ex_specs_tables =
     ex_specs \<lparr> filters := \<lparr> includeOnlySchemaList = [\<lparr> ss_nspname = ''app'' \<rparr>,
                                                          \<lparr> ss_nspname = ''aux'' \<rparr>] \<rparr>,
                sourceTableArray := [ \<lparr> st_oid = 8, st_nspname = ''s'', st_relname = ''t1'' \<rparr>,
                                      \<lparr> st_oid = 9, st_nspname = ''s'', st_relname = ''t2'' \<rparr> ] \<rparr>"

text \<open>The same run with an extension that has one configuration table.\<close>

definition ex_specs_extension :: CopyDataSpec where
  "ex_specs_extension =
     ex_specs \<lparr> catalog := \<lparr> extensionArray =
       [ \<lparr> extname = ''postgis'',
           config = [ \<lparr> sec_nspname = ''public'', sec_relname = ''spatial_ref_sys'',
                        sec_condition = ''WHERE srid > 900000'' \<rparr> ] \<rparr> ] \<rparr> \<rparr>"

text \<open>The same surroundings, but copying rows to the target fails.\<close>

definition ex_env_copy_fails :: env where
  "ex_env_copy_fails = ex_env \<lparr> pg_copy_succeeds := (\<lambda>w srcQname dstQname. False) \<rparr>"

definition ex_world :: world where
  "ex_world =
     \<lparr> files = [''pre.dump'' \<mapsto> ''archive'', ''post.dump'' \<mapsto> ''archive'', ''idx/7.done'' \<mapsto> []],
       trace = [] \<rparr>"

text \<open>A work directory where both restores are marked done but the archives are gone.\<close>

definition ex_world_no_archive :: world where
  "ex_world_no_archive =
     \<lparr> files = [''pre-restore.done'' \<mapsto> [], ''post-restore.done'' \<mapsto> []], trace = [] \<rparr>"

text \<open>A work directory where everything is marked done and the archives are there.\<close>

definition ex_world_done :: world where
  "ex_world_done =
     \<lparr> files = [''pre.dump'' \<mapsto> ''archive'', ''post.dump'' \<mapsto> ''archive'',
                ''pre-dump.done'' \<mapsto> [], ''post-dump.done'' \<mapsto> [],
                ''pre-restore.done'' \<mapsto> [], ''post-restore.done'' \<mapsto> []],
       trace = [] \<rparr>"

section \<open>Vocabulary of the properties\<close>

text \<open>
  The include-list as the specification words it: the entry's line as the restorer printed
  it, and the same line behind a \<open>";"\<close> when the entry's object has a done-marker or
  is excluded by the filters.
\<close>

definition restore_list_entry :: "ArchiveContentItem \<Rightarrow> string" where
  "restore_list_entry item =
     fmt_d (dumpId item) @ ''; '' @ fmt_u (catalogOid item) @ '' '' @ fmt_u (objectOid item) @
       '' '' @ desc item @ '' '' @ restoreListName item @ newline"

definition include_list_line :: "env \<Rightarrow> CopyDataSpec \<Rightarrow> world \<Rightarrow> ArchiveContentItem \<Rightarrow> string" where
  "include_list_line e specs w item =
     (if copydb_objectid_has_been_processed_already specs w (objectOid item) \<or>
         copydb_objectid_is_filtered_out e specs (objectOid item) (restoreListName item)
      then '';'' @ restore_list_entry item
      else restore_list_entry item)"

text \<open>
  The events a call added to the trace, the SQL texts among a list of events, and the same
  texts each with the connection it was sent over.
\<close>

definition new_events :: "world \<Rightarrow> world \<Rightarrow> event list" where
  "new_events w w' = drop (length (trace w)) (trace w')"

fun is_restore_db :: "event \<Rightarrow> bool" where
  "is_restore_db (EvPgRestoreDb dumpFilename listFilename ok) = True"
| "is_restore_db _ = False"

fun executed_sql :: "event list \<Rightarrow> string list" where
  "executed_sql [] = []"
| "executed_sql (EvExecute pgsql sql ok # evs) = sql # executed_sql evs"
| "executed_sql (_ # evs) = executed_sql evs"

definition sql_before_restore :: "event list \<Rightarrow> string list" where
  "sql_before_restore evs = executed_sql (takeWhile (\<lambda>ev. \<not> is_restore_db ev) evs)"

fun executed_statements :: "event list \<Rightarrow> (PGSQL \<times> string) list" where
  "executed_statements [] = []"
| "executed_statements (EvExecute pgsql sql ok # evs) = (pgsql, sql) # executed_statements evs"
| "executed_statements (_ # evs) = executed_statements evs"

definition statements_before_restore :: "event list \<Rightarrow> (PGSQL \<times> string) list" where
  "statements_before_restore evs =
     executed_statements (takeWhile (\<lambda>ev. \<not> is_restore_db ev) evs)"

text \<open>The handle of a connection to the target database of a run.\<close>

definition target_connection :: "CopyDataSpec \<Rightarrow> PGSQL" where
  "target_connection specs =
     \<lparr>connectionString = target_pguri specs, connectionType = PGSQL_CONN_TARGET\<rparr>"

definition is_drop_tables :: "string \<Rightarrow> bool" where
  "is_drop_tables sql = prefix ''DROP TABLE IF EXISTS'' sql"

definition is_create_schema :: "string \<Rightarrow> bool" where
  "is_create_schema sql = prefix ''CREATE SCHEMA IF NOT EXISTS'' sql"

text \<open>A table name, schema-qualified and double-quoted; one \<open>CREATE SCHEMA\<close> statement.\<close>

definition qualified_name :: "SourceTable \<Rightarrow> string" where
  "qualified_name t = dquote @ st_nspname t @ dquote @ ''.'' @ dquote @ st_relname t @ dquote"

definition create_schema_statement :: "SourceSchema \<Rightarrow> string" where
  "create_schema_statement s = ''CREATE SCHEMA IF NOT EXISTS '' @ dquote @ ss_nspname s @ dquote @ '';''"

text \<open>
  The four schema units and what each one is in the code: the two dump units are
  \<open>copydb_dump_source_schema\<close> called for one section (under a snapshot, which the
  restores do not use), the two restore units are
  \<open>copydb_target_prepare_schema\<close> and \<open>copydb_target_finalize_schema\<close>. Each has a
  done file, an external tool, and one more file it writes on the way (the archive for a
  dump, the include-list for a restore).
\<close>

datatype schema_unit = PreDataDump | PostDataDump | PreDataRestore | PostDataRestore

definition run_unit ::
  "env \<Rightarrow> CopyDataSpec \<Rightarrow> string \<Rightarrow> schema_unit \<Rightarrow> world \<Rightarrow> bool \<times> world" where
  "run_unit e specs snapshot u w =
     (case u of
        PreDataDump \<Rightarrow> copydb_dump_source_schema e specs snapshot PG_DUMP_SECTION_PRE_DATA w
      | PostDataDump \<Rightarrow> copydb_dump_source_schema e specs snapshot PG_DUMP_SECTION_POST_DATA w
      | PreDataRestore \<Rightarrow> copydb_target_prepare_schema e specs w
      | PostDataRestore \<Rightarrow> copydb_target_finalize_schema e specs w)"

definition unit_marker :: "CopyDataSpec \<Rightarrow> schema_unit \<Rightarrow> string" where
  "unit_marker specs u =
     (case u of
        PreDataDump \<Rightarrow> preDataDump (done_paths (cfPaths specs))
      | PostDataDump \<Rightarrow> postDataDump (done_paths (cfPaths specs))
      | PreDataRestore \<Rightarrow> preDataRestore (done_paths (cfPaths specs))
      | PostDataRestore \<Rightarrow> postDataRestore (done_paths (cfPaths specs)))"

definition unit_archive :: "CopyDataSpec \<Rightarrow> schema_unit \<Rightarrow> string" where
  "unit_archive specs u =
     (case u of
        PreDataDump \<Rightarrow> preFilename (dumpPaths specs)
      | PostDataDump \<Rightarrow> postFilename (dumpPaths specs)
      | PreDataRestore \<Rightarrow> preFilename (dumpPaths specs)
      | PostDataRestore \<Rightarrow> postFilename (dumpPaths specs))"

definition unit_output :: "CopyDataSpec \<Rightarrow> schema_unit \<Rightarrow> string" where
  "unit_output specs u =
     (case u of
        PreDataDump \<Rightarrow> preFilename (dumpPaths specs)
      | PostDataDump \<Rightarrow> postFilename (dumpPaths specs)
      | PreDataRestore \<Rightarrow> preListFilename (dumpPaths specs)
      | PostDataRestore \<Rightarrow> postListFilename (dumpPaths specs))"

definition is_restore_unit :: "schema_unit \<Rightarrow> bool" where
  "is_restore_unit u = (u = PreDataRestore \<or> u = PostDataRestore)"

fun is_dump_of :: "string \<Rightarrow> event \<Rightarrow> bool" where
  "is_dump_of sect (EvPgDump s filename ok) = (s = sect)"
| "is_dump_of sect _ = False"

definition tool_ran :: "schema_unit \<Rightarrow> event list \<Rightarrow> bool" where
  "tool_ran u evs =
     (case u of
        PreDataDump \<Rightarrow> list_ex (is_dump_of ''pre-data'') evs
      | PostDataDump \<Rightarrow> list_ex (is_dump_of ''post-data'') evs
      | PreDataRestore \<Rightarrow> list_ex is_restore_db evs
      | PostDataRestore \<Rightarrow> list_ex is_restore_db evs)"

section \<open>ld\_replay.c\<close>

subsection \<open>Data model of the stream applier\<close>

type_synonym XLogRecPtr = "64 word"

definition InvalidXLogRecPtr :: XLogRecPtr where
  "InvalidXLogRecPtr = 0"

datatype StreamAction =
    STREAM_ACTION_UNKNOWN
  | STREAM_ACTION_BEGIN
  | STREAM_ACTION_COMMIT
  | STREAM_ACTION_INSERT
  | STREAM_ACTION_UPDATE
  | STREAM_ACTION_DELETE
  | STREAM_ACTION_TRUNCATE
  | STREAM_ACTION_MESSAGE
  | STREAM_ACTION_SWITCH
  | STREAM_ACTION_KEEPALIVE

text \<open>
  What \<open>parseSQLAction\<close> reads from a line. Of the specification's Logical Message the
  record keeps the action, the xid, the lsn of the message and the commit-lsn of the
  transaction it belongs to (a BEGIN line carries "a marker recording the source xid and
  commit-lsn").
\<close>

record LogicalMessageMetadata =
  action :: StreamAction
  xid :: "32 word"
  lsn :: XLogRecPtr
  commit_lsn :: XLogRecPtr

record StreamSpecs =
  stdIn :: bool
  specs_timeline :: "32 word"
  specs_WalSegSz :: "32 word"
  specs_endpos :: XLogRecPtr

record StreamApplyContext =
  ctx_timeline :: "32 word"
  ctx_WalSegSz :: "32 word"
  previousLSN :: XLogRecPtr
  endpos :: XLogRecPtr
  replay_lsn :: XLogRecPtr
  reachedEndPos :: bool
  sentinelQueryInProgress :: bool
  sentinelSyncTime :: "64 word"

text \<open>
  What the applier does to the two databases, in the order of the calls: a line handed
  to \<open>stream_apply_sql\<close> (with the action parsed from it), an asynchronous sentinel
  update sent (with the clock reading at the call), the result of one fetched, the
  synchronous sentinel update (each sentinel update with the \<open>replay_lsn\<close> of the context
  at the call), the pause between two fetches, and the target connection closed. The flag
  says whether the call succeeded.
\<close>

datatype replay_event =
    RApplySql StreamAction string bool
  | RSendSyncSentinel "64 word" XLogRecPtr bool
  | RFetchSyncSentinel bool
  | RSyncSentinel XLogRecPtr bool
  | RSleep
  | RPgsqlFinish

text \<open>
  The callback's \<open>ReplayStreamCtx\<close>, together with the events so far and the clock:
  \<open>clock\<close> is what \<open>time(NULL)\<close> returns.
\<close>

record replay_state =
  applyContext :: StreamApplyContext
  rtrace :: "replay_event list"
  clock :: "64 word"

text \<open>
  The functions of the applier whose code is not part of these files are parameters.
  Each of those called while lines are replayed is given the clock reading at the call,
  what happened so far and the context, and answers with the context it leaves, or with
  \<open>None\<close> when it fails.
\<close>

record replay_env =
  stream_apply_wait_for_sentinel :: "StreamSpecs \<Rightarrow> StreamApplyContext \<Rightarrow> StreamApplyContext option"
  stream_read_context :: "StreamSpecs \<Rightarrow> StreamSpecs option"
  setupReplicationOrigin :: "StreamApplyContext \<Rightarrow> StreamSpecs \<Rightarrow> StreamApplyContext option"
  src_pgsql_init_succeeds :: "StreamApplyContext \<Rightarrow> bool"
  parseSQLAction :: "string \<Rightarrow> LogicalMessageMetadata option"
  stream_apply_sql ::
    "64 word \<Rightarrow> replay_event list \<Rightarrow> StreamApplyContext \<Rightarrow> LogicalMessageMetadata \<Rightarrow> string \<Rightarrow>
     StreamApplyContext option"
  stream_apply_fetch_sync_sentinel ::
    "64 word \<Rightarrow> replay_event list \<Rightarrow> StreamApplyContext \<Rightarrow> StreamApplyContext option"
  stream_apply_send_sync_sentinel ::
    "64 word \<Rightarrow> replay_event list \<Rightarrow> StreamApplyContext \<Rightarrow> StreamApplyContext option"
  stream_apply_sync_sentinel ::
    "64 word \<Rightarrow> replay_event list \<Rightarrow> StreamApplyContext \<Rightarrow> StreamApplyContext option"

definition record_event :: "replay_event \<Rightarrow> replay_state \<Rightarrow> replay_state" where
  "record_event ev s = s\<lparr>rtrace := rtrace s @ [ev]\<rparr>"

text \<open>A helper called on the state: the context it leaves and the event, or the failure.\<close>

definition call_helper ::
  "(64 word \<Rightarrow> replay_event list \<Rightarrow> StreamApplyContext \<Rightarrow> StreamApplyContext option) \<Rightarrow>
   (bool \<Rightarrow> replay_event) \<Rightarrow> replay_state \<Rightarrow> bool \<times> replay_state" where
  "call_helper helper ev s =
     (case helper (clock s) (rtrace s) (applyContext s) of
        None \<Rightarrow> (False, record_event (ev False) s)
      | Some c \<Rightarrow> (True, record_event (ev True) (s\<lparr>applyContext := c\<rparr>)))"

subsection \<open>stream\_replay\_line\<close>

text \<open>
  The callback. The result is the return value, the \<open>stop\<close> flag handed back to the
  reader, and the state. The clock does not move while one line is handled: \<open>now\<close> is
  the reading the helpers see as well.
\<close>

definition stream_replay_line ::
  "replay_env \<Rightarrow> string \<Rightarrow> replay_state \<Rightarrow> bool \<times> bool \<times> replay_state" where
  "stream_replay_line env line s =
     (case parseSQLAction env line of
        None \<Rightarrow> (False, False, s)
      | Some metadata \<Rightarrow>
          let (applied, s1) =
                call_helper (\<lambda>now h c. stream_apply_sql env now h c metadata line)
                  (RApplySql (action metadata) line) s
          in if \<not> applied then (False, False, s1)
          else
            let (reported, s2) =
                  (if action metadata = STREAM_ACTION_COMMIT \<or>
                      action metadata = STREAM_ACTION_KEEPALIVE
                   then
                     let now = clock s1 in
                     if sentinelQueryInProgress (applyContext s1)
                     then call_helper (stream_apply_fetch_sync_sentinel env) RFetchSyncSentinel s1
                     else if 1 < now - sentinelSyncTime (applyContext s1)
                     then call_helper (stream_apply_send_sync_sentinel env)
                            (RSendSyncSentinel now (replay_lsn (applyContext s1))) s1
                     else (True, s1)
                   else (True, s1))
            in if \<not> reported then (False, False, s2)
            else if reachedEndPos (applyContext s2) \<or>
                    (endpos (applyContext s2) \<noteq> InvalidXLogRecPtr \<and>
                     endpos (applyContext s2) \<le> previousLSN (applyContext s2))
            then (True, True, s2\<lparr>applyContext := (applyContext s2)\<lparr>reachedEndPos := True\<rparr>\<rparr>)
            else (True, False, s2))"

subsection \<open>read\_from\_stream\<close>

text \<open>
  Modelled from the spec: \<open>read_from_stream\<close> is not among the source files. The
  applier "consumes a pipe": the callback is called on each line read, in order, until the
  input ends or the callback raises \<open>stop\<close>; a failure of the callback, or of reading,
  fails the read. A line comes with the clock reading at the time it is handled.
\<close>

datatype stream_item = Line "64 word" string | ReadFailure

fun read_from_stream :: "replay_env \<Rightarrow> stream_item list \<Rightarrow> replay_state \<Rightarrow> bool \<times> replay_state" where
  "read_from_stream env [] s = (True, s)"
| "read_from_stream env (ReadFailure # rest) s = (False, s)"
| "read_from_stream env (Line now line # rest) s =
     (case stream_replay_line env line (s\<lparr>clock := now\<rparr>) of
        (False, stop, s1) \<Rightarrow> (False, s1)
      | (True, stop, s1) \<Rightarrow> if stop then (True, s1) else read_from_stream env rest s1)"

subsection \<open>stream\_apply\_replay\<close>

text \<open>
  The steps before anything is replayed: the check of \<open>specs->stdIn\<close>, the wait for the
  sentinel, the streaming context read when the timeline is not known yet, and the
  replication origin, which leaves \<open>previousLSN\<close> and \<open>endpos\<close> in the context. The
  context starts zeroed.
\<close>

definition zero_context :: StreamApplyContext where
  "zero_context =
     \<lparr> ctx_timeline = 0, ctx_WalSegSz = 0, previousLSN = 0, endpos = 0, replay_lsn = 0,
       reachedEndPos = False, sentinelQueryInProgress = False, sentinelSyncTime = 0 \<rparr>"

definition replay_setup :: "replay_env \<Rightarrow> StreamSpecs \<Rightarrow> StreamApplyContext option" where
  "replay_setup env specs =
     (if \<not> stdIn specs then None
      else
        (case stream_apply_wait_for_sentinel env specs zero_context of
           None \<Rightarrow> None
         | Some c1 \<Rightarrow>
             (case (if specs_timeline specs = 0 then stream_read_context env specs
                    else Some specs) of
                None \<Rightarrow> None
              | Some specs1 \<Rightarrow>
                  setupReplicationOrigin env
                    (c1\<lparr>ctx_timeline := specs_timeline specs1,
                        ctx_WalSegSz := specs_WalSegSz specs1\<rparr>)
                    specs1)))"

text \<open>
  The loop that ends a sentinel query still in flight. Nothing bounds the number of
  rounds: the loop returns when a fetch fails or leaves the flag cleared. The clock is
  left where the last line read put it.
\<close>

partial_function (option) drain_sentinel ::
  "replay_env \<Rightarrow> replay_state \<Rightarrow> (bool \<times> replay_state) option" where
  "drain_sentinel env s =
     (if sentinelQueryInProgress (applyContext s)
      then
        (case call_helper (stream_apply_fetch_sync_sentinel env) RFetchSyncSentinel s of
           (fetched, s1) \<Rightarrow>
             if \<not> fetched then Some (False, s1)
             else drain_sentinel env (record_event RSleep s1))
      else Some (True, s))"

declare drain_sentinel.simps [code]

definition stream_apply_replay ::
  "replay_env \<Rightarrow> StreamSpecs \<Rightarrow> stream_item list \<Rightarrow> (bool \<times> replay_state) option" where
  "stream_apply_replay env specs input =
     (case replay_setup env specs of
        None \<Rightarrow> Some (False, \<lparr> applyContext = zero_context, rtrace = [], clock = 0 \<rparr>)
      | Some c \<Rightarrow>
          if endpos c \<noteq> InvalidXLogRecPtr \<and> endpos c \<le> previousLSN c
          then Some (True, \<lparr> applyContext = c, rtrace = [], clock = 0 \<rparr>)
          else if \<not> src_pgsql_init_succeeds env c
          then Some (False, \<lparr> applyContext = c, rtrace = [], clock = 0 \<rparr>)
          else
            (case read_from_stream env input \<lparr> applyContext = c, rtrace = [], clock = 0 \<rparr> of
               (False, s1) \<Rightarrow> Some (False, s1)
             | (True, s1) \<Rightarrow>
                 (case drain_sentinel env s1 of
                    None \<Rightarrow> None
                  | Some (False, s2) \<Rightarrow> Some (False, s2)
                  | Some (True, s2) \<Rightarrow>
                      Some (call_helper (stream_apply_sync_sentinel env)
                              (RSyncSentinel (replay_lsn (applyContext s2)))
                              (record_event RPgsqlFinish s2)))))"

subsection \<open>The helpers of the applier as the specification describes them\<close>

text \<open>
  Modelled from the spec: \<open>stream_apply_sql\<close> is not among the source files. Of the
  applier's state machine the part that shows in the context is kept. A BEGIN whose
  commit-lsn lies beyond a non-zero \<open>endpos\<close> is not applied and raises
  \<open>reachedEndPos\<close>: "the applier stops after committing the transaction whose commit-lsn
  is the greatest commit-lsn \<le> endpos", and "no transaction with commit_lsn > endpos is
  visible on the target". A COMMIT makes its commit-lsn the last applied one
  (\<open>previousLSN\<close>) and the one to report (\<open>replay_lsn\<close>) when its transaction was
  begun: its commit-lsn is not below \<open>previousLSN\<close> ("older transactions are skipped as
  duplicates") and not beyond a non-zero \<open>endpos\<close>. Other lines leave the context as it
  is.
\<close>

definition spec_stream_apply_sql ::
  "64 word \<Rightarrow> replay_event list \<Rightarrow> StreamApplyContext \<Rightarrow> LogicalMessageMetadata \<Rightarrow> string \<Rightarrow>
   StreamApplyContext option" where
  "spec_stream_apply_sql now history c metadata line =
     (if action metadata = STREAM_ACTION_BEGIN
      then
        if endpos c \<noteq> InvalidXLogRecPtr \<and> endpos c < commit_lsn metadata
        then Some (c\<lparr>reachedEndPos := True\<rparr>)
        else Some c
      else if action metadata = STREAM_ACTION_COMMIT
      then
        if previousLSN c \<le> commit_lsn metadata \<and>
           (endpos c = InvalidXLogRecPtr \<or> commit_lsn metadata \<le> endpos c)
        then Some (c\<lparr>previousLSN := commit_lsn metadata, replay_lsn := commit_lsn metadata\<rparr>)
        else Some c
      else Some c)"

text \<open>
  Modelled from the spec: the three sentinel functions are not among the source files.
  Sending the asynchronous update raises the in-flight flag and makes the clock reading
  the time of the last update (the update goes out "at most once per second"); fetching
  its result clears the flag; the synchronous update leaves the context as it is. The
  end position is the one the run started with.
\<close>

definition spec_send_sync_sentinel ::
  "64 word \<Rightarrow> replay_event list \<Rightarrow> StreamApplyContext \<Rightarrow> StreamApplyContext option" where
  "spec_send_sync_sentinel now history c =
     Some (c\<lparr>sentinelQueryInProgress := True, sentinelSyncTime := now\<rparr>)"

definition spec_fetch_sync_sentinel ::
  "64 word \<Rightarrow> replay_event list \<Rightarrow> StreamApplyContext \<Rightarrow> StreamApplyContext option" where
  "spec_fetch_sync_sentinel now history c = Some (c\<lparr>sentinelQueryInProgress := False\<rparr>)"

definition spec_sync_sentinel ::
  "64 word \<Rightarrow> replay_event list \<Rightarrow> StreamApplyContext \<Rightarrow> StreamApplyContext option" where
  "spec_sync_sentinel now history c = Some c"

subsection \<open>An example run of the applier\<close>

text \<open>The lines of the example stream and what \<open>parseSQLAction\<close> reads from them.\<close>

definition ex_parse :: "string \<Rightarrow> LogicalMessageMetadata option" where
  "ex_parse =
     map_of
       [ (''BEGIN 50'', \<lparr> action = STREAM_ACTION_BEGIN, xid = 1, lsn = 40, commit_lsn = 50 \<rparr>),
         (''INSERT'', \<lparr> action = STREAM_ACTION_INSERT, xid = 0, lsn = 0, commit_lsn = 0 \<rparr>),
         (''COMMIT 50'', \<lparr> action = STREAM_ACTION_COMMIT, xid = 1, lsn = 50, commit_lsn = 50 \<rparr>),
         (''KEEPALIVE 60'', \<lparr> action = STREAM_ACTION_KEEPALIVE, xid = 0, lsn = 60, commit_lsn = 0 \<rparr>),
         (''BEGIN 150'', \<lparr> action = STREAM_ACTION_BEGIN, xid = 2, lsn = 140, commit_lsn = 150 \<rparr>),
         (''COMMIT 150'', \<lparr> action = STREAM_ACTION_COMMIT, xid = 2, lsn = 150, commit_lsn = 150 \<rparr>),
         (''BEGIN 200'', \<lparr> action = STREAM_ACTION_BEGIN, xid = 3, lsn = 190, commit_lsn = 200 \<rparr>),
         (''COMMIT 200'', \<lparr> action = STREAM_ACTION_COMMIT, xid = 3, lsn = 200, commit_lsn = 200 \<rparr>) ]"

text \<open>
  The surroundings of the example runs: the replication origin was last advanced to LSN 10,
  the end position is the one of the specs, and the sentinel was last synced at second 9.
\<close>

definition ex_replay_env :: replay_env where
  "ex_replay_env =
     \<lparr> stream_apply_wait_for_sentinel = (\<lambda>specs c. Some c),
       stream_read_context = (\<lambda>specs. Some (specs\<lparr>specs_timeline := 1\<rparr>)),
       setupReplicationOrigin =
         (\<lambda>c specs. Some (c\<lparr>previousLSN := 10, endpos := specs_endpos specs,
                             sentinelSyncTime := 9\<rparr>)),
       src_pgsql_init_succeeds = (\<lambda>c. True),
       parseSQLAction = ex_parse,
       stream_apply_sql = spec_stream_apply_sql,
       stream_apply_fetch_sync_sentinel = spec_fetch_sync_sentinel,
       stream_apply_send_sync_sentinel = spec_send_sync_sentinel,
       stream_apply_sync_sentinel = spec_sync_sentinel \<rparr>"

text \<open>The same surroundings, but for a target that refuses every INSERT.\<close>

definition ex_replay_env_insert_fails :: replay_env where
  "ex_replay_env_insert_fails =
     ex_replay_env
       \<lparr> stream_apply_sql :=
           (\<lambda>now history c metadata line.
              if action metadata = STREAM_ACTION_INSERT then None
              else spec_stream_apply_sql now history c metadata line) \<rparr>"

definition ex_stream_specs :: "XLogRecPtr \<Rightarrow> StreamSpecs" where
  "ex_stream_specs pos =
     \<lparr> stdIn = True, specs_timeline = 0, specs_WalSegSz = 16777216, specs_endpos = pos \<rparr>"

text \<open>The context the example runs start from, and the example stream in three parts.\<close>

definition ex_context :: "XLogRecPtr \<Rightarrow> StreamApplyContext" where
  "ex_context pos =
     \<lparr> ctx_timeline = 1, ctx_WalSegSz = 16777216, previousLSN = 10, endpos = pos,
       replay_lsn = 0, reachedEndPos = False, sentinelQueryInProgress = False,
       sentinelSyncTime = 9 \<rparr>"

definition ex_stream_head :: "stream_item list" where
  "ex_stream_head =
     [ Line 10 ''BEGIN 50'', Line 10 ''INSERT'', Line 10 ''COMMIT 50'',
       Line 12 ''KEEPALIVE 60'',
       Line 13 ''BEGIN 150'', Line 13 ''INSERT'' ]"

definition ex_stream_tail :: "stream_item list" where
  "ex_stream_tail = [ Line 15 ''BEGIN 200'', Line 15 ''COMMIT 200'' ]"

text \<open>Three transactions, committed at LSN 50, 150 and 200.\<close>

definition ex_stream :: "stream_item list" where
  "ex_stream = ex_stream_head @ Line 14 ''COMMIT 150'' # ex_stream_tail"

text \<open>What the applier has done once the keepalive line of the example stream is handled.\<close>

definition ex_events_to_keepalive :: "replay_event list" where
  "ex_events_to_keepalive =
     [RApplySql STREAM_ACTION_BEGIN ''BEGIN 50'' True,
      RApplySql STREAM_ACTION_INSERT ''INSERT'' True,
      RApplySql STREAM_ACTION_COMMIT ''COMMIT 50'' True,
      RApplySql STREAM_ACTION_KEEPALIVE ''KEEPALIVE 60'' True,
      RSendSyncSentinel 12 50 True]"

text \<open>The states the example runs are in at some points of the stream.\<close>

definition ex_after_begin_50 :: replay_state where
  "ex_after_begin_50 =
     \<lparr> applyContext = ex_context 100,
       rtrace = [RApplySql STREAM_ACTION_BEGIN ''BEGIN 50'' True],
       clock = 10 \<rparr>"

definition ex_after_commit_50 :: replay_state where
  "ex_after_commit_50 =
     \<lparr> applyContext = (ex_context 100) \<lparr> previousLSN := 50, replay_lsn := 50 \<rparr>,
       rtrace = take 3 ex_events_to_keepalive,
       clock = 10 \<rparr>"

text \<open>
  With the end position at 100: the state the read ends in, at the BEGIN of the
  transaction committed at 150.
\<close>

definition ex_stopped_at_begin_150 :: replay_state where
  "ex_stopped_at_begin_150 =
     \<lparr> applyContext = (ex_context 100) \<lparr> previousLSN := 50, replay_lsn := 50,
                                          reachedEndPos := True,
                                          sentinelQueryInProgress := True,
                                          sentinelSyncTime := 12 \<rparr>,
       rtrace = ex_events_to_keepalive @ [RApplySql STREAM_ACTION_BEGIN ''BEGIN 150'' True],
       clock = 13 \<rparr>"

text \<open>The same state once the update in flight is drained.\<close>

definition ex_drained_at_begin_150 :: replay_state where
  "ex_drained_at_begin_150 =
     \<lparr> applyContext = (ex_context 100) \<lparr> previousLSN := 50, replay_lsn := 50,
                                          reachedEndPos := True,
                                          sentinelSyncTime := 12 \<rparr>,
       rtrace = ex_events_to_keepalive @
                [RApplySql STREAM_ACTION_BEGIN ''BEGIN 150'' True,
                 RFetchSyncSentinel True, RSleep],
       clock = 13 \<rparr>"

text \<open>With the end position at 150: the state after the line \<open>COMMIT 150\<close> was handled.\<close>

definition ex_after_commit_150 :: replay_state where
  "ex_after_commit_150 =
     \<lparr> applyContext = (ex_context 150) \<lparr> previousLSN := 150, replay_lsn := 150,
                                          reachedEndPos := True,
                                          sentinelSyncTime := 12 \<rparr>,
       rtrace = ex_events_to_keepalive @
                [RApplySql STREAM_ACTION_BEGIN ''BEGIN 150'' True,
                 RApplySql STREAM_ACTION_INSERT ''INSERT'' True,
                 RApplySql STREAM_ACTION_COMMIT ''COMMIT 150'' True,
                 RFetchSyncSentinel True],
       clock = 14 \<rparr>"

text \<open>With no end position: the state after the whole stream was read.\<close>

definition ex_after_commit_200 :: replay_state where
  "ex_after_commit_200 =
     \<lparr> applyContext = (ex_context 0) \<lparr> previousLSN := 200, replay_lsn := 200,
                                        sentinelQueryInProgress := True,
                                        sentinelSyncTime := 15 \<rparr>,
       rtrace = ex_events_to_keepalive @
                [RApplySql STREAM_ACTION_BEGIN ''BEGIN 150'' True,
                 RApplySql STREAM_ACTION_INSERT ''INSERT'' True,
                 RApplySql STREAM_ACTION_COMMIT ''COMMIT 150'' True,
                 RFetchSyncSentinel True,
                 RApplySql STREAM_ACTION_BEGIN ''BEGIN 200'' True,
                 RApplySql STREAM_ACTION_COMMIT ''COMMIT 200'' True,
                 RSendSyncSentinel 15 200 True],
       clock = 15 \<rparr>"

text \<open>A stream whose second line does not parse, and the state the read ends in.\<close>

definition ex_stream_unparsed :: "stream_item list" where
  "ex_stream_unparsed = [ Line 10 ''BEGIN 50'', Line 11 ''no such statement'' ]"

definition ex_at_unparsed_line :: replay_state where
  "ex_at_unparsed_line = ex_after_begin_50 \<lparr> clock := 11 \<rparr>"

text \<open>What \<open>parseSQLAction\<close> reads from two lines of the example stream.\<close>

definition ex_keepalive :: LogicalMessageMetadata where
  "ex_keepalive = \<lparr> action = STREAM_ACTION_KEEPALIVE, xid = 0, lsn = 60, commit_lsn = 0 \<rparr>"

definition ex_insert :: LogicalMessageMetadata where
  "ex_insert = \<lparr> action = STREAM_ACTION_INSERT, xid = 0, lsn = 0, commit_lsn = 0 \<rparr>"

subsection \<open>Vocabulary of the applier's properties\<close>

text \<open>The state a run starts replaying from, once the setup is through.\<close>

definition replay_start :: "StreamApplyContext \<Rightarrow> replay_state" where
  "replay_start c = \<lparr> applyContext = c, rtrace = [], clock = 0 \<rparr>"

text \<open>The end position is reached in a context: the test of the source, without the flag.\<close>

definition endpos_reached :: "StreamApplyContext \<Rightarrow> bool" where
  "endpos_reached c = (endpos c \<noteq> InvalidXLogRecPtr \<and> endpos c \<le> previousLSN c)"

fun is_sync_sentinel :: "replay_event \<Rightarrow> bool" where
  "is_sync_sentinel (RSyncSentinel pos ok) = True"
| "is_sync_sentinel _ = False"

fun is_progress_event :: "replay_event \<Rightarrow> bool" where
  "is_progress_event (RApplySql act line ok) = True"
| "is_progress_event (RSendSyncSentinel now pos ok) = True"
| "is_progress_event (RFetchSyncSentinel ok) = True"
| "is_progress_event _ = False"

fun is_drain_event :: "replay_event \<Rightarrow> bool" where
  "is_drain_event (RFetchSyncSentinel ok) = True"
| "is_drain_event RSleep = True"
| "is_drain_event _ = False"

definition is_progress_point :: "StreamAction \<Rightarrow> bool" where
  "is_progress_point act = (act = STREAM_ACTION_COMMIT \<or> act = STREAM_ACTION_KEEPALIVE)"

text \<open>
  A trace in which every sentinel query (sent or fetched) comes right after a COMMIT or
  KEEPALIVE line was applied, one query at most for each such line.
\<close>

fun progress_discipline :: "replay_event list \<Rightarrow> bool" where
  "progress_discipline [] = True"
| "progress_discipline (RApplySql act line ok # RSendSyncSentinel now pos sent # evs) =
     (is_progress_point act \<and> progress_discipline evs)"
| "progress_discipline (RApplySql act line ok # RFetchSyncSentinel fetched # evs) =
     (is_progress_point act \<and> progress_discipline evs)"
| "progress_discipline (RApplySql act line ok # evs) = progress_discipline evs"
| "progress_discipline (ev # evs) = False"

text \<open>
  A line's events: the line applied, then at most one sentinel query, and that only for
  a COMMIT or KEEPALIVE line.
\<close>

fun is_line_events :: "replay_event list \<Rightarrow> bool" where
  "is_line_events [] = True"
| "is_line_events [RApplySql act line ok] = True"
| "is_line_events [RApplySql act line ok, RSendSyncSentinel now pos sent] = is_progress_point act"
| "is_line_events [RApplySql act line ok, RFetchSyncSentinel fetched] = is_progress_point act"
| "is_line_events evs = False"

fun starts_with_line :: "replay_event list \<Rightarrow> bool" where
  "starts_with_line [] = True"
| "starts_with_line (RApplySql act line ok # evs) = True"
| "starts_with_line (ev # evs) = False"

text \<open>
  What the code relies on from the helpers for its in-flight flag: sending the
  asynchronous update leaves \<open>sentinelQueryInProgress\<close> set, and applying a line does
  not touch it.
\<close>

definition keeps_in_flight_flag :: "replay_env \<Rightarrow> bool" where
  "keeps_in_flight_flag env =
     ((\<forall>now history c c'. stream_apply_send_sync_sentinel env now history c = Some c' \<longrightarrow>
          sentinelQueryInProgress c') \<and>
      (\<forall>now history c metadata line c'.
          stream_apply_sql env now history c metadata line = Some c' \<longrightarrow>
          sentinelQueryInProgress c' = sentinelQueryInProgress c))"

text \<open>
  A trace in which no asynchronous update is sent while an earlier one is pending: after
  an update was sent with success, a result is fetched before the next one is sent.
  \<open>pending\<close> says whether an update is pending where the trace starts.
\<close>

fun one_in_flight :: "bool \<Rightarrow> replay_event list \<Rightarrow> bool" where
  "one_in_flight pending [] = True"
| "one_in_flight pending (RSendSyncSentinel now pos ok # evs) =
     (\<not> pending \<and> one_in_flight ok evs)"
| "one_in_flight pending (RFetchSyncSentinel ok # evs) = one_in_flight False evs"
| "one_in_flight pending (ev # evs) = one_in_flight pending evs"

text \<open>
  What the code relies on from the helpers for its rate limit: sending the asynchronous
  update leaves the clock reading of the call in \<open>sentinelSyncTime\<close>, and neither
  applying a line nor fetching a result moves \<open>sentinelSyncTime\<close> anywhere but to the
  clock reading of the call.
\<close>

definition keeps_sync_time :: "replay_env \<Rightarrow> bool" where
  "keeps_sync_time env =
     ((\<forall>now history c c'. stream_apply_send_sync_sentinel env now history c = Some c' \<longrightarrow>
          sentinelSyncTime c' = now) \<and>
      (\<forall>now history c c'. stream_apply_fetch_sync_sentinel env now history c = Some c' \<longrightarrow>
          sentinelSyncTime c' = sentinelSyncTime c \<or> sentinelSyncTime c' = now) \<and>
      (\<forall>now history c metadata line c'.
          stream_apply_sql env now history c metadata line = Some c' \<longrightarrow>
          sentinelSyncTime c' = sentinelSyncTime c \<or> sentinelSyncTime c' = now))"

text \<open>
  The clock never runs backwards over a stream: no line is handled at an earlier reading
  than the line before it, nor the first line at an earlier reading than \<open>start\<close>.
\<close>

fun clock_runs_forward :: "64 word \<Rightarrow> stream_item list \<Rightarrow> bool" where
  "clock_runs_forward start [] = True"
| "clock_runs_forward start (ReadFailure # rest) = clock_runs_forward start rest"
| "clock_runs_forward start (Line now line # rest) =
     (start \<le> now \<and> clock_runs_forward now rest)"

text \<open>
  The clock readings at which the asynchronous updates of a trace were sent, in seconds;
  and a list of readings in which each is more than one second after the one before.
\<close>

fun send_times :: "replay_event list \<Rightarrow> nat list" where
  "send_times [] = []"
| "send_times (RSendSyncSentinel now pos ok # evs) = unat now # send_times evs"
| "send_times (ev # evs) = send_times evs"

fun over_a_second_apart :: "nat list \<Rightarrow> bool" where
  "over_a_second_apart [] = True"
| "over_a_second_apart [t] = True"
| "over_a_second_apart (t # u # ts) = (t + 1 < u \<and> over_a_second_apart (u # ts))"

text \<open>
  The messages of a stream, as parsed; a stream every item of which is a line that parses;
  the commit-lsns of the transactions committed in a list of messages, in the order of
  the stream; and a list of messages in commit order: the commit-lsns its BEGIN and COMMIT
  lines carry never decrease.
\<close>

fun stream_messages :: "replay_env \<Rightarrow> stream_item list \<Rightarrow> LogicalMessageMetadata list" where
  "stream_messages env [] = []"
| "stream_messages env (ReadFailure # rest) = stream_messages env rest"
| "stream_messages env (Line now line # rest) =
     (case parseSQLAction env line of
        None \<Rightarrow> stream_messages env rest
      | Some metadata \<Rightarrow> metadata # stream_messages env rest)"

fun readable :: "replay_env \<Rightarrow> stream_item list \<Rightarrow> bool" where
  "readable env [] = True"
| "readable env (ReadFailure # rest) = False"
| "readable env (Line now line # rest) =
     (parseSQLAction env line \<noteq> None \<and> readable env rest)"

definition commit_lsns :: "LogicalMessageMetadata list \<Rightarrow> XLogRecPtr list" where
  "commit_lsns ms = map commit_lsn (filter (\<lambda>m. action m = STREAM_ACTION_COMMIT) ms)"

definition commit_order :: "LogicalMessageMetadata list \<Rightarrow> bool" where
  "commit_order ms =
     sorted (map commit_lsn
               (filter (\<lambda>m. action m = STREAM_ACTION_BEGIN \<or> action m = STREAM_ACTION_COMMIT) ms))"

text \<open>
  The greatest commit-lsn at or below \<open>pos\<close> among the transactions committed in a list
  of messages, or the LSN \<open>start\<close> reached before when that is greater (or when no
  transaction is committed at or below \<open>pos\<close>).
\<close>

definition greatest_commit_upto ::
  "XLogRecPtr \<Rightarrow> XLogRecPtr \<Rightarrow> LogicalMessageMetadata list \<Rightarrow> XLogRecPtr" where
  "greatest_commit_upto pos start ms =
     Max (set (start # filter (\<lambda>l. l \<le> pos) (commit_lsns ms)))"

text \<open>The surroundings in which the helpers are the ones the specification describes.\<close>

definition helpers_as_specified :: "replay_env \<Rightarrow> bool" where
  "helpers_as_specified env =
     (stream_apply_sql env = spec_stream_apply_sql \<and>
      stream_apply_fetch_sync_sentinel env = spec_fetch_sync_sentinel \<and>
      stream_apply_send_sync_sentinel env = spec_send_sync_sentinel \<and>
      stream_apply_sync_sentinel env = spec_sync_sentinel)"

section \<open>Properties\<close>

text \<open>
  C10. When the run's source table array is empty, \<open>copydb_target_drop_tables\<close> returns
  success and leaves the world exactly as it found it: no connection is opened and no SQL
  statement is executed on the target database.
\<close>

theorem drop_tables_empty_array_no_sql:
  "sourceTableArray specs = [] \<Longrightarrow> copydb_target_drop_tables e specs w = (True, w)"
  by (simp add: copydb_target_drop_tables_def)

theorem drop_tables_empty_array_no_sql_witness:
  "sourceTableArray ex_specs = [] \<and> dropIfExists (restoreOptions ex_specs) \<and>
   copydb_target_drop_tables ex_env ex_specs ex_world = (True, ex_world)"
proof -
  have h: "sourceTableArray ex_specs = []" by (simp add: ex_specs_def)
  show ?thesis
    using h drop_tables_empty_array_no_sql [OF h, of ex_env ex_world]
    by (simp add: ex_specs_def)
qed

subsection \<open>Evaluation and bookkeeping lemmas\<close>

lemmas ex_defs = ex_env_def ex_specs_def ex_world_def ex_contents_def ex_specs_tables_def
  ex_env_list_unwritable_def ex_env_tools_fail_def ex_world_no_archive_def ex_world_done_def
  ex_specs_extension_def ex_env_copy_fails_def

lemmas run_defs = copydb_target_prepare_schema_def copydb_write_restore_list_def
  copydb_target_drop_tables_def copydb_target_prepare_namespaces_def
  copydb_target_finalize_schema_def copydb_dump_source_schema_def dump_section_def
  pg_restore_list_def pg_restore_db_def write_file_def pgsql_init_def pgsql_execute_def
  pg_dump_db_def file_exists_def log_event_def restore_list_filenames_def
  PQExpBufferBroken_def copydb_objectid_has_been_processed_already_def
  sformat_def MAXPGPATH_def

lemma files_log_event [simp]: "files (log_event ev w) = files w"
  by (simp add: log_event_def)

lemma trace_log_event [simp]: "trace (log_event ev w) = trace w @ [ev]"
  by (simp add: log_event_def)

lemma executed_sql_append [simp]: "executed_sql (xs @ ys) = executed_sql xs @ executed_sql ys"
  by (induction xs rule: executed_sql.induct) simp_all

subsection \<open>Decimal rendering\<close>

lemma decimal_digits_shape: "\<exists>d ds. decimal_digits n acc = d # ds \<and> d < 10"
proof (induction n acc rule: decimal_digits.induct)
  case (1 n acc)
  show ?case
  proof (cases "n < 10")
    case True
    then show ?thesis
      by (subst decimal_digits.simps) simp
  next
    case False
    with 1 show ?thesis
      by (subst decimal_digits.simps) simp
  qed
qed

lemma digit_char_not_semicolon: "d < 10 \<Longrightarrow> digit_char d \<noteq> CHR '';''"
proof -
  assume "d < 10"
  then have "d \<in> {0, 1, 2, 3, 4, 5, 6, 7, 8, 9}"
    by auto
  then show ?thesis
    by (auto simp: digit_char_def)
qed

lemma fmt_nat_not_empty: "fmt_nat n \<noteq> []"
  using decimal_digits_shape [of n "[]"] by (auto simp: fmt_nat_def)

lemma hd_fmt_nat_not_semicolon: "hd (fmt_nat n) \<noteq> CHR '';''"
  using decimal_digits_shape [of n "[]"]
  by (auto simp: fmt_nat_def digit_char_not_semicolon)

lemma hd_restore_list_entry: "hd (restore_list_entry item) \<noteq> CHR '';''"
  by (simp add: restore_list_entry_def fmt_d_def fmt_int_def fmt_nat_not_empty
      hd_fmt_nat_not_semicolon)

subsection \<open>The include-list\<close>

lemma restore_list_loop_lines:
  "restore_list_loop e specs w contents acc =
     acc @ concat (map (include_list_line e specs w) contents)"
  by (induction contents arbitrary: acc)
     (simp_all add: include_list_line_def restore_list_entry_def Let_def)

lemma processed_already_log_event [simp]:
  "copydb_objectid_has_been_processed_already specs (log_event ev w) oid =
   copydb_objectid_has_been_processed_already specs w oid"
  by (simp add: copydb_objectid_has_been_processed_already_def file_exists_def)

lemma include_list_line_log_event [simp]:
  "include_list_line e specs (log_event ev w) = include_list_line e specs w"
  by (rule ext) (simp add: include_list_line_def)

text \<open>
  C3. When \<open>copydb_write_restore_list\<close> succeeds, the list file holds one line per entry
  of the archive, in the archive's order: the entry's own line (dumpId, catalogOid,
  objectOid, description and restore-list name, as formatted) when the entry's object has
  no done file in the index directory and is not filtered out, and that same line behind
  a \<open>";"\<close> otherwise. A line starts with \<open>";"\<close> exactly in the second case.
\<close>

theorem write_restore_list_comments_done_or_filtered:
  assumes "copydb_write_restore_list e specs section w = (True, w')"
  shows "\<exists>dumpFilename listFilename contents.
           restore_list_filenames specs section = Some (dumpFilename, listFilename) \<and>
           pg_restore_list_result e w dumpFilename = Some contents \<and>
           files w' listFilename = Some (concat (map (include_list_line e specs w) contents)) \<and>
           (\<forall>item. (hd (include_list_line e specs w item) = CHR '';'') =
                     (copydb_objectid_has_been_processed_already specs w (objectOid item) \<or>
                      copydb_objectid_is_filtered_out e specs (objectOid item)
                        (restoreListName item)))"
  using assms
  by (auto simp: copydb_write_restore_list_def pg_restore_list_def write_file_def
      restore_list_loop_lines include_list_line_def hd_restore_list_entry Let_def
      split: option.splits if_splits prod.splits)

lemma ex_fmt [simp]:
  "fmt_d 3 = ''3''" "fmt_d 4 = ''4''" "fmt_d 5 = ''5''"
  "fmt_u 7 = ''7''" "fmt_u 8 = ''8''" "fmt_u 9 = ''9''" "fmt_u 1259 = ''1259''"
  by (simp_all add: fmt_d_def fmt_u_def fmt_int_def fmt_nat_def decimal_digits.simps digit_char_def)

lemma ex_write_restore_list:
  "copydb_write_restore_list ex_env ex_specs PG_DUMP_SECTION_POST_DATA ex_world =
     (True, \<lparr> files = (files ex_world)(''post.list'' \<mapsto>
                ('';3; 1259 7 INDEX public i1 owner'' @ newline @
                 '';4; 1259 8 TABLE s secret owner'' @ newline @
                 ''5; 1259 9 TABLE public t owner'' @ newline)),
              trace = [EvPgRestoreList ''post.dump'' True, EvWriteFile ''post.list'' True] \<rparr>)"
  by (simp add: ex_defs run_defs Let_def newline_def)

theorem write_restore_list_comments_done_or_filtered_witness:
  "fst (copydb_write_restore_list ex_env ex_specs PG_DUMP_SECTION_POST_DATA ex_world) \<and>
   files (snd (copydb_write_restore_list ex_env ex_specs PG_DUMP_SECTION_POST_DATA ex_world))
     ''post.list'' =
     Some (concat (map (include_list_line ex_env ex_specs ex_world) ex_contents)) \<and>
   map (include_list_line ex_env ex_specs ex_world) ex_contents =
     ['';3; 1259 7 INDEX public i1 owner'' @ newline,
      '';4; 1259 8 TABLE s secret owner'' @ newline,
      ''5; 1259 9 TABLE public t owner'' @ newline]"
proof -
  let ?w' = "snd (copydb_write_restore_list ex_env ex_specs PG_DUMP_SECTION_POST_DATA ex_world)"
  have run: "copydb_write_restore_list ex_env ex_specs PG_DUMP_SECTION_POST_DATA ex_world =
               (True, ?w')"
    by (simp add: ex_write_restore_list)
  have names: "restore_list_filenames ex_specs PG_DUMP_SECTION_POST_DATA =
                 Some (''post.dump'', ''post.list'')"
    by (simp add: restore_list_filenames_def ex_specs_def)
  have listed: "pg_restore_list_result ex_env ex_world ''post.dump'' = Some ex_contents"
    by (simp add: ex_env_def)
  have lines: "map (include_list_line ex_env ex_specs ex_world) ex_contents =
     ['';3; 1259 7 INDEX public i1 owner'' @ newline,
      '';4; 1259 8 TABLE s secret owner'' @ newline,
      ''5; 1259 9 TABLE public t owner'' @ newline]"
    by (simp add: include_list_line_def restore_list_entry_def ex_defs
        copydb_objectid_has_been_processed_already_def file_exists_def sformat_def MAXPGPATH_def)
  from write_restore_list_comments_done_or_filtered [OF run] names listed
  have written: "files ?w' ''post.list'' =
          Some (concat (map (include_list_line ex_env ex_specs ex_world) ex_contents))"
    by auto
  have ok: "fst (copydb_write_restore_list ex_env ex_specs PG_DUMP_SECTION_POST_DATA ex_world)"
    by (simp add: ex_write_restore_list)
  show ?thesis
    by (rule conjI [OF ok conjI [OF written lines]])
qed

subsection \<open>The SQL sent before the pre-data restore\<close>

lemma drop_tables_loop_text:
  "drop_tables_loop i ts q =
     q @ concat (map (\<lambda>(k, t). (if k = 0 then '' '' else '','') @ '' '' @ qualified_name t)
                  (zip [i ..< i + length ts] ts))"
proof (induction ts arbitrary: i q)
  case Nil
  then show ?case by simp
next
  case (Cons t ts)
  have "[i ..< i + length (t # ts)] = i # [Suc i ..< Suc i + length ts]"
    by (simp add: upt_rec)
  then show ?case
    using Cons.IH [of "Suc i"] by (simp add: qualified_name_def)
qed

lemma drop_tables_loop_Suc:
  "drop_tables_loop (Suc i) ts q = q @ concat (map (\<lambda>t. '', '' @ qualified_name t) ts)"
  by (induction ts arbitrary: i q) (simp_all add: qualified_name_def)

lemma drop_tables_query_form:
  "drop_tables_query (t # ts) =
     ''DROP TABLE IF EXISTS  '' @ qualified_name t @
       concat (map (\<lambda>t. '', '' @ qualified_name t) ts) @ ''CASCADE''"
  by (simp add: drop_tables_query_def drop_tables_loop_Suc qualified_name_def)

lemma is_drop_tables_query [simp]: "is_drop_tables (drop_tables_query ts)"
  by (simp add: is_drop_tables_def drop_tables_query_def drop_tables_loop_text)

lemma not_create_schema_drop_tables_query [simp]: "\<not> is_create_schema (drop_tables_query ts)"
  by (simp add: is_create_schema_def drop_tables_query_def drop_tables_loop_text)

lemma prepare_namespaces_loop_text:
  "prepare_namespaces_loop schemas q = q @ concat (map create_schema_statement schemas)"
  by (induction schemas arbitrary: q) (simp_all add: create_schema_statement_def)

lemma is_create_schema_namespaces [simp]:
  "schemas \<noteq> [] \<Longrightarrow> is_create_schema (prepare_namespaces_loop schemas [])"
  by (cases schemas)
     (simp_all add: prepare_namespaces_loop_text is_create_schema_def create_schema_statement_def)

lemma not_drop_tables_namespaces [simp]:
  "schemas \<noteq> [] \<Longrightarrow> \<not> is_drop_tables (prepare_namespaces_loop schemas [])"
  by (cases schemas)
     (simp_all add: prepare_namespaces_loop_text is_drop_tables_def create_schema_statement_def)

lemma prepare_schema_statements_before_restore:
  assumes "copydb_target_prepare_schema e specs w = (r, w')"
      and "\<exists>ev \<in> set (new_events w w'). is_restore_db ev"
  shows "statements_before_restore (new_events w w') =
           (if dropIfExists (restoreOptions specs) \<and> sourceTableArray specs \<noteq> []
            then [(target_connection specs, drop_tables_query (sourceTableArray specs))] else []) @
           (if includeOnlySchemaList (filters specs) \<noteq> []
            then [(target_connection specs,
                   prepare_namespaces_loop (includeOnlySchemaList (filters specs)) [])]
            else [])"
  using assms
  by (auto simp: copydb_target_prepare_schema_def copydb_write_restore_list_def
      copydb_target_drop_tables_def copydb_target_prepare_namespaces_def
      pg_restore_list_def pg_restore_db_def write_file_def pgsql_init_def pgsql_execute_def
      new_events_def statements_before_restore_def target_connection_def Let_def
      split: option.splits if_splits prod.splits)

lemma executed_sql_statements: "executed_sql evs = map snd (executed_statements evs)"
  by (induction evs rule: executed_sql.induct) simp_all

lemma prepare_schema_sql_before_restore:
  assumes "copydb_target_prepare_schema e specs w = (r, w')"
      and "\<exists>ev \<in> set (new_events w w'). is_restore_db ev"
  shows "sql_before_restore (new_events w w') =
           (if dropIfExists (restoreOptions specs) \<and> sourceTableArray specs \<noteq> []
            then [drop_tables_query (sourceTableArray specs)] else []) @
           (if includeOnlySchemaList (filters specs) \<noteq> []
            then [prepare_namespaces_loop (includeOnlySchemaList (filters specs)) []] else [])"
proof -
  have "sql_before_restore (new_events w w') =
          map snd (statements_before_restore (new_events w w'))"
    by (simp add: sql_before_restore_def statements_before_restore_def executed_sql_statements)
  with prepare_schema_statements_before_restore [OF assms] show ?thesis
    by simp
qed

lemma ex_prepare_schema_tables_trace:
  "fst (copydb_target_prepare_schema ex_env ex_specs_tables ex_world) \<and>
   trace (snd (copydb_target_prepare_schema ex_env ex_specs_tables ex_world)) =
     [EvPgRestoreList ''pre.dump'' True, EvWriteFile ''pre.list'' True,
      EvConnect \<lparr>connectionString = ''dst'', connectionType = PGSQL_CONN_TARGET\<rparr> True,
      EvExecute \<lparr>connectionString = ''dst'', connectionType = PGSQL_CONN_TARGET\<rparr>
        (''DROP TABLE IF EXISTS  '' @ dquote @ ''s'' @ dquote @ ''.'' @ dquote @ ''t1'' @ dquote @
         '', '' @ dquote @ ''s'' @ dquote @ ''.'' @ dquote @ ''t2'' @ dquote @ ''CASCADE'') True,
      EvConnect \<lparr>connectionString = ''dst'', connectionType = PGSQL_CONN_TARGET\<rparr> True,
      EvExecute \<lparr>connectionString = ''dst'', connectionType = PGSQL_CONN_TARGET\<rparr>
        (''CREATE SCHEMA IF NOT EXISTS '' @ dquote @ ''app'' @ dquote @ '';'' @
         ''CREATE SCHEMA IF NOT EXISTS '' @ dquote @ ''aux'' @ dquote @ '';'') True,
      EvPgRestoreDb ''pre.dump'' ''pre.list'' True,
      EvWriteFile ''pre-restore.done'' True]"
  by (simp add: ex_defs run_defs Let_def drop_tables_query_def)

text \<open>
  C5 (as amended). Whenever \<open>copydb_target_prepare_schema\<close> gets as far as invoking the
  pre-data restore, the \<open>DROP TABLE IF EXISTS\<close> statements it executed on the target
  before that are: exactly one when \<open>dropIfExists\<close> is set and the source table array is
  not empty, namely \<open>DROP TABLE IF EXISTS\<close> followed by every table of the array in
  order, each schema-qualified and double-quoted, separated by commas, and \<open>CASCADE\<close>;
  and none at all otherwise.
\<close>

theorem prepare_schema_drop_if_exists:
  assumes "copydb_target_prepare_schema e specs w = (r, w')"
      and "\<exists>ev \<in> set (new_events w w'). is_restore_db ev"
  shows "filter is_drop_tables (sql_before_restore (new_events w w')) =
           (if dropIfExists (restoreOptions specs) \<and> sourceTableArray specs \<noteq> []
            then [''DROP TABLE IF EXISTS  '' @ qualified_name (hd (sourceTableArray specs)) @
                  concat (map (\<lambda>t. '', '' @ qualified_name t) (tl (sourceTableArray specs))) @
                  ''CASCADE'']
            else [])"
proof (cases "sourceTableArray specs")
  case Nil
  with prepare_schema_sql_before_restore [OF assms] show ?thesis
    by simp
next
  case (Cons t ts)
  have "is_drop_tables (drop_tables_query (t # ts))"
    by simp
  with Cons prepare_schema_sql_before_restore [OF assms] show ?thesis
    by (simp add: drop_tables_query_form)
qed

theorem prepare_schema_drop_if_exists_witness:
  "fst (copydb_target_prepare_schema ex_env ex_specs_tables ex_world) \<and>
   dropIfExists (restoreOptions ex_specs_tables) \<and>
   filter is_drop_tables
     (sql_before_restore
        (new_events ex_world (snd (copydb_target_prepare_schema ex_env ex_specs_tables ex_world)))) =
     [''DROP TABLE IF EXISTS  '' @ dquote @ ''s'' @ dquote @ ''.'' @ dquote @ ''t1'' @ dquote @
      '', '' @ dquote @ ''s'' @ dquote @ ''.'' @ dquote @ ''t2'' @ dquote @ ''CASCADE'']"
proof -
  let ?w' = "snd (copydb_target_prepare_schema ex_env ex_specs_tables ex_world)"
  have run: "copydb_target_prepare_schema ex_env ex_specs_tables ex_world = (True, ?w')"
    using ex_prepare_schema_tables_trace by (simp add: prod_eq_iff)
  have reached: "\<exists>ev \<in> set (new_events ex_world ?w'). is_restore_db ev"
    using ex_prepare_schema_tables_trace by (simp add: new_events_def ex_world_def)
  have opts: "dropIfExists (restoreOptions ex_specs_tables)"
    by (simp add: ex_defs)
  have "filter is_drop_tables (sql_before_restore (new_events ex_world ?w')) =
          [''DROP TABLE IF EXISTS  '' @ dquote @ ''s'' @ dquote @ ''.'' @ dquote @ ''t1'' @ dquote @
           '', '' @ dquote @ ''s'' @ dquote @ ''.'' @ dquote @ ''t2'' @ dquote @ ''CASCADE'']"
    using prepare_schema_drop_if_exists [OF run reached]
    by (simp add: ex_defs qualified_name_def)
  with ex_prepare_schema_tables_trace opts show ?thesis
    by blast
qed

text \<open>
  The claim as first stated fails on an empty source table array: \<open>dropIfExists\<close> is
  set, the pre-data restore is invoked, and no SQL statement was sent to the target.
\<close>

theorem drop_if_exists_empty_array_counterexample:
  "dropIfExists (restoreOptions ex_specs) \<and>
   fst (copydb_target_prepare_schema ex_env ex_specs ex_world) \<and>
   trace (snd (copydb_target_prepare_schema ex_env ex_specs ex_world)) =
     [EvPgRestoreList ''pre.dump'' True, EvWriteFile ''pre.list'' True,
      EvPgRestoreDb ''pre.dump'' ''pre.list'' True, EvWriteFile ''pre-restore.done'' True]"
  by (simp add: ex_defs run_defs Let_def)

text \<open>
  C8. Whenever \<open>copydb_target_prepare_schema\<close> gets as far as invoking the pre-data
  restore, the \<open>CREATE SCHEMA IF NOT EXISTS\<close> statements it executed before that, each
  with the connection it was sent over, are: when the include-only-schema list is not
  empty, one query sent over a connection to the target database (opened with the run's
  \<open>target_pguri\<close> as a target connection), holding one
  \<open>CREATE SCHEMA IF NOT EXISTS "name";\<close> statement for each schema of the list, in order;
  and nothing, on any connection, when the list is empty.
\<close>

theorem prepare_schema_creates_namespaces:
  assumes "copydb_target_prepare_schema e specs w = (r, w')"
      and "\<exists>ev \<in> set (new_events w w'). is_restore_db ev"
  shows "filter (\<lambda>(pgsql, sql). is_create_schema sql)
           (statements_before_restore (new_events w w')) =
           (if includeOnlySchemaList (filters specs) \<noteq> []
            then [(\<lparr>connectionString = target_pguri specs, connectionType = PGSQL_CONN_TARGET\<rparr>,
                   concat (map create_schema_statement (includeOnlySchemaList (filters specs))))]
            else [])"
proof -
  have query_eq: "prepare_namespaces_loop (includeOnlySchemaList (filters specs)) [] =
                concat (map create_schema_statement (includeOnlySchemaList (filters specs)))"
    by (simp add: prepare_namespaces_loop_text)
  have "includeOnlySchemaList (filters specs) \<noteq> [] \<Longrightarrow>
          is_create_schema (prepare_namespaces_loop (includeOnlySchemaList (filters specs)) [])"
    by simp
  with prepare_schema_statements_before_restore [OF assms] show ?thesis
    by (simp add: query_eq target_connection_def)
qed

theorem prepare_schema_creates_namespaces_witness:
  "fst (copydb_target_prepare_schema ex_env ex_specs_tables ex_world) \<and>
   filter (\<lambda>(pgsql, sql). is_create_schema sql)
     (statements_before_restore
        (new_events ex_world (snd (copydb_target_prepare_schema ex_env ex_specs_tables ex_world)))) =
     [(\<lparr>connectionString = ''dst'', connectionType = PGSQL_CONN_TARGET\<rparr>,
       ''CREATE SCHEMA IF NOT EXISTS '' @ dquote @ ''app'' @ dquote @ '';'' @
       ''CREATE SCHEMA IF NOT EXISTS '' @ dquote @ ''aux'' @ dquote @ '';'')]"
proof -
  let ?w' = "snd (copydb_target_prepare_schema ex_env ex_specs_tables ex_world)"
  have run: "copydb_target_prepare_schema ex_env ex_specs_tables ex_world = (True, ?w')"
    using ex_prepare_schema_tables_trace by (simp add: prod_eq_iff)
  have reached: "\<exists>ev \<in> set (new_events ex_world ?w'). is_restore_db ev"
    using ex_prepare_schema_tables_trace by (simp add: new_events_def ex_world_def)
  have "filter (\<lambda>(pgsql, sql). is_create_schema sql)
          (statements_before_restore (new_events ex_world ?w')) =
     [(\<lparr>connectionString = ''dst'', connectionType = PGSQL_CONN_TARGET\<rparr>,
       ''CREATE SCHEMA IF NOT EXISTS '' @ dquote @ ''app'' @ dquote @ '';'' @
       ''CREATE SCHEMA IF NOT EXISTS '' @ dquote @ ''aux'' @ dquote @ '';'')]"
    using prepare_schema_creates_namespaces [OF run reached]
    by (simp add: ex_defs create_schema_statement_def)
  with ex_prepare_schema_tables_trace show ?thesis
    by blast
qed

text \<open>
  C4. With a list file that cannot be written, \<open>copydb_write_restore_list\<close> fails, and
  both \<open>copydb_target_prepare_schema\<close> and \<open>copydb_target_finalize_schema\<close> return
  \<open>true\<close> all the same: the restorer is not run, no done file is written, and the
  caller is told the step succeeded.
\<close>

theorem restore_list_write_failure_reported_as_success:
  "fst (copydb_write_restore_list ex_env_list_unwritable ex_specs PG_DUMP_SECTION_PRE_DATA ex_world) = False \<and>
   fst (copydb_write_restore_list ex_env_list_unwritable ex_specs PG_DUMP_SECTION_POST_DATA ex_world) = False \<and>
   copydb_target_prepare_schema ex_env_list_unwritable ex_specs ex_world =
     (True, ex_world \<lparr> trace := [EvPgRestoreList ''pre.dump'' True, EvWriteFile ''pre.list'' False] \<rparr>) \<and>
   copydb_target_finalize_schema ex_env_list_unwritable ex_specs ex_world =
     (True, ex_world \<lparr> trace := [EvPgRestoreList ''post.dump'' True, EvWriteFile ''post.list'' False] \<rparr>)"
  by (simp add: ex_defs run_defs Let_def)

subsection \<open>Done files of the four schema units\<close>

lemma unit_skips_tool:
  assumes "run_unit e specs snapshot u w = (r, w')" and "file_exists w (unit_marker specs u)"
  shows "\<not> tool_ran u (new_events w w')"
  using assms
  by (cases u)
     (auto simp: run_unit_def unit_marker_def tool_ran_def new_events_def
        copydb_dump_source_schema_def dump_section_def copydb_target_prepare_schema_def
        copydb_target_finalize_schema_def write_file_def Let_def
        split: if_splits prod.splits)

lemma restore_unit_skips:
  assumes "is_restore_unit u" and "file_exists w (unit_archive specs u)"
      and "file_exists w (unit_marker specs u)"
  shows "run_unit e specs snapshot u w = (True, w)"
  using assms
  by (auto simp: is_restore_unit_def run_unit_def unit_marker_def unit_archive_def
      copydb_target_prepare_schema_def copydb_target_finalize_schema_def)

lemma restore_unit_needs_archive:
  assumes "is_restore_unit u" and "\<not> file_exists w (unit_archive specs u)"
  shows "run_unit e specs snapshot u w = (False, w)"
  using assms
  by (auto simp: is_restore_unit_def run_unit_def unit_archive_def
      copydb_target_prepare_schema_def copydb_target_finalize_schema_def)

lemma dump_unit_skips:
  assumes "\<not> is_restore_unit u" and "file_exists w (unit_marker specs u)"
  shows "run_unit e specs snapshot u w = write_file e [] (unit_marker specs u) w"
  using assms
  by (cases u)
     (auto simp: is_restore_unit_def run_unit_def unit_marker_def
        copydb_dump_source_schema_def dump_section_def Let_def split: prod.splits)

lemma unit_marker_last:
  assumes "run_unit e specs snapshot u w = (True, w')" and "tool_ran u (new_events w w')"
  shows "file_exists w' (unit_marker specs u) \<and>
         last (trace w') = EvWriteFile (unit_marker specs u) True"
  using assms
  by (cases u)
     (auto simp: run_unit_def unit_marker_def tool_ran_def new_events_def
        copydb_dump_source_schema_def dump_section_def copydb_target_prepare_schema_def
        copydb_target_finalize_schema_def copydb_write_restore_list_def
        pg_restore_list_def pg_restore_db_def restore_list_filenames_def
        write_file_def file_exists_def Let_def
        split: if_splits prod.splits option.splits)

lemma unit_failure_no_marker:
  assumes "run_unit e specs snapshot u w = (False, w')" and "\<not> file_exists w (unit_marker specs u)"
      and "unit_marker specs u \<noteq> unit_output specs u"
  shows "\<not> file_exists w' (unit_marker specs u)"
  using assms
  by (cases u)
     (auto simp: run_unit_def unit_marker_def unit_output_def
        copydb_dump_source_schema_def dump_section_def copydb_target_prepare_schema_def
        copydb_target_finalize_schema_def copydb_write_restore_list_def
        copydb_target_drop_tables_def copydb_target_prepare_namespaces_def
        pg_restore_list_def pg_restore_db_def pg_dump_db_def pgsql_init_def pgsql_execute_def
        restore_list_filenames_def
        write_file_def file_exists_def Let_def
        split: if_splits prod.splits option.splits)

text \<open>
  C7 (as amended). For each of the four schema units (pre-data dump, post-data dump,
  pre-data restore, post-data restore): when the unit's done file exists its external
  tool is not run; a restore unit whose archive and done file both exist returns success
  and does nothing; a restore unit whose archive does not exist returns failure and does
  nothing, whether its done file exists or not; a dump unit whose done file exists only
  writes the done file again; a unit that ran its tool and reports success holds its done file, and writing it
  was the last thing the unit did; a unit that reports failure, and whose done file did
  not exist, leaves no done file (the done file being another path than the archive or
  list file the unit writes).
\<close>

theorem schema_units_done_markers:
  assumes "run_unit e specs snapshot u w = (r, w')"
  shows "(file_exists w (unit_marker specs u) \<longrightarrow> \<not> tool_ran u (new_events w w')) \<and>
         (is_restore_unit u \<and> file_exists w (unit_archive specs u) \<and>
            file_exists w (unit_marker specs u) \<longrightarrow> r \<and> w' = w) \<and>
         (is_restore_unit u \<and> \<not> file_exists w (unit_archive specs u) \<longrightarrow> \<not> r \<and> w' = w) \<and>
         (\<not> is_restore_unit u \<and> file_exists w (unit_marker specs u) \<longrightarrow>
            (r, w') = write_file e [] (unit_marker specs u) w) \<and>
         (r \<and> tool_ran u (new_events w w') \<longrightarrow>
            file_exists w' (unit_marker specs u) \<and>
            last (trace w') = EvWriteFile (unit_marker specs u) True) \<and>
         (\<not> r \<and> \<not> file_exists w (unit_marker specs u) \<and>
            unit_marker specs u \<noteq> unit_output specs u \<longrightarrow>
            \<not> file_exists w' (unit_marker specs u))"
proof (intro conjI impI)
  assume "file_exists w (unit_marker specs u)"
  with assms show "\<not> tool_ran u (new_events w w')"
    by (rule unit_skips_tool)
next
  assume a: "is_restore_unit u \<and> file_exists w (unit_archive specs u) \<and>
             file_exists w (unit_marker specs u)"
  with restore_unit_skips [of u w specs e snapshot] assms show r by simp
  from a restore_unit_skips [of u w specs e snapshot] assms show "w' = w" by simp
next
  assume a: "is_restore_unit u \<and> \<not> file_exists w (unit_archive specs u)"
  with restore_unit_needs_archive [of u w specs e snapshot] assms show "\<not> r" by simp
  from a restore_unit_needs_archive [of u w specs e snapshot] assms show "w' = w" by simp
next
  assume "\<not> is_restore_unit u \<and> file_exists w (unit_marker specs u)"
  with dump_unit_skips [of u w specs e snapshot] assms
  show "(r, w') = write_file e [] (unit_marker specs u) w" by simp
next
  assume a: "r \<and> tool_ran u (new_events w w')"
  with assms have "run_unit e specs snapshot u w = (True, w')" by simp
  from unit_marker_last [OF this] a
  show "file_exists w' (unit_marker specs u)"
    and "last (trace w') = EvWriteFile (unit_marker specs u) True" by simp_all
next
  assume a: "\<not> r \<and> \<not> file_exists w (unit_marker specs u) \<and>
             unit_marker specs u \<noteq> unit_output specs u"
  with assms have "run_unit e specs snapshot u w = (False, w')" by simp
  from unit_failure_no_marker [OF this] a
  show "\<not> file_exists w' (unit_marker specs u)" by simp
qed

lemma ex_units:
  "run_unit ex_env ex_specs ''snap'' PreDataRestore ex_world_done = (True, ex_world_done)"
  "run_unit ex_env ex_specs ''snap'' PostDataDump ex_world_done =
     (True, ex_world_done \<lparr> trace := [EvWriteFile ''post-dump.done'' True] \<rparr>)"
  "fst (run_unit ex_env ex_specs ''snap'' PostDataRestore ex_world)"
  "trace (snd (run_unit ex_env ex_specs ''snap'' PostDataRestore ex_world)) =
     [EvPgRestoreList ''post.dump'' True, EvWriteFile ''post.list'' True,
      EvPgRestoreDb ''post.dump'' ''post.list'' True, EvWriteFile ''post-restore.done'' True]"
  "run_unit ex_env_tools_fail ex_specs ''snap'' PreDataDump ex_world =
     (False, ex_world \<lparr> trace := [EvPgDump ''pre-data'' ''pre.dump'' False] \<rparr>)"
  by (simp_all add: run_unit_def ex_defs run_defs Let_def fun_upd_idem)

theorem schema_units_done_markers_witness:
  "(file_exists ex_world_done (unit_marker ex_specs PreDataRestore) \<and>
    file_exists ex_world_done (unit_archive ex_specs PreDataRestore) \<and>
    run_unit ex_env ex_specs ''snap'' PreDataRestore ex_world_done = (True, ex_world_done)) \<and>
   (file_exists ex_world_done (unit_marker ex_specs PostDataDump) \<and>
    \<not> tool_ran PostDataDump
        (new_events ex_world_done (snd (run_unit ex_env ex_specs ''snap'' PostDataDump ex_world_done)))) \<and>
   (fst (run_unit ex_env ex_specs ''snap'' PostDataRestore ex_world) \<and>
    tool_ran PostDataRestore
      (new_events ex_world (snd (run_unit ex_env ex_specs ''snap'' PostDataRestore ex_world))) \<and>
    last (trace (snd (run_unit ex_env ex_specs ''snap'' PostDataRestore ex_world))) =
      EvWriteFile ''post-restore.done'' True) \<and>
   (\<not> fst (run_unit ex_env_tools_fail ex_specs ''snap'' PreDataDump ex_world) \<and>
    \<not> file_exists ex_world (unit_marker ex_specs PreDataDump) \<and>
    \<not> file_exists (snd (run_unit ex_env_tools_fail ex_specs ''snap'' PreDataDump ex_world))
        (unit_marker ex_specs PreDataDump)) \<and>
   (file_exists ex_world_no_archive (unit_marker ex_specs PostDataRestore) \<and>
    \<not> file_exists ex_world_no_archive (unit_archive ex_specs PostDataRestore) \<and>
    run_unit ex_env ex_specs ''snap'' PostDataRestore ex_world_no_archive =
      (False, ex_world_no_archive))"
proof -
  let ?gone = "run_unit ex_env ex_specs ''snap'' PostDataRestore ex_world_no_archive"
  let ?done = "snd (run_unit ex_env ex_specs ''snap'' PostDataDump ex_world_done)"
  let ?restored = "snd (run_unit ex_env ex_specs ''snap'' PostDataRestore ex_world)"
  let ?failed = "snd (run_unit ex_env_tools_fail ex_specs ''snap'' PreDataDump ex_world)"
  have marked: "file_exists ex_world_done (unit_marker ex_specs PreDataRestore)"
    "file_exists ex_world_done (unit_archive ex_specs PreDataRestore)"
    "file_exists ex_world_done (unit_marker ex_specs PostDataDump)"
    "\<not> file_exists ex_world (unit_marker ex_specs PreDataDump)"
    "unit_marker ex_specs PreDataDump \<noteq> unit_output ex_specs PreDataDump"
    "unit_marker ex_specs PostDataRestore = ''post-restore.done''"
    by (simp_all add: unit_marker_def unit_archive_def unit_output_def file_exists_def ex_defs)
  have run1: "run_unit ex_env ex_specs ''snap'' PostDataDump ex_world_done = (True, ?done)"
    by (simp add: ex_units)
  have run2: "run_unit ex_env ex_specs ''snap'' PostDataRestore ex_world = (True, ?restored)"
    using ex_units(3) by (simp add: prod_eq_iff)
  have run3: "run_unit ex_env_tools_fail ex_specs ''snap'' PreDataDump ex_world = (False, ?failed)"
    by (simp add: ex_units)
  have fresh: "trace ex_world = []"
    by (simp add: ex_world_def)
  have ran: "tool_ran PostDataRestore (new_events ex_world ?restored)"
    by (simp add: ex_units(4) tool_ran_def new_events_def fresh)
  have c1: "\<not> tool_ran PostDataDump (new_events ex_world_done ?done)"
    using schema_units_done_markers [OF run1] marked by simp
  have c2: "last (trace ?restored) = EvWriteFile ''post-restore.done'' True"
    using schema_units_done_markers [OF run2] ran marked by simp
  have c3: "\<not> file_exists ?failed (unit_marker ex_specs PreDataDump)"
    using schema_units_done_markers [OF run3] marked by simp
  have gone: "file_exists ex_world_no_archive (unit_marker ex_specs PostDataRestore)"
    "\<not> file_exists ex_world_no_archive (unit_archive ex_specs PostDataRestore)"
    "is_restore_unit PostDataRestore"
    by (simp_all add: unit_marker_def unit_archive_def is_restore_unit_def file_exists_def ex_defs)
  have run4: "?gone = (fst ?gone, snd ?gone)"
    by simp
  have c4: "\<not> fst ?gone \<and> snd ?gone = ex_world_no_archive"
    using schema_units_done_markers [OF run4] gone by simp
  have first: "(file_exists ex_world_done (unit_marker ex_specs PreDataRestore) \<and>
    file_exists ex_world_done (unit_archive ex_specs PreDataRestore) \<and>
    run_unit ex_env ex_specs ''snap'' PreDataRestore ex_world_done = (True, ex_world_done)) \<and>
   (file_exists ex_world_done (unit_marker ex_specs PostDataDump) \<and>
    \<not> tool_ran PostDataDump (new_events ex_world_done ?done)) \<and>
   (fst (run_unit ex_env ex_specs ''snap'' PostDataRestore ex_world) \<and>
    tool_ran PostDataRestore (new_events ex_world ?restored) \<and>
    last (trace ?restored) = EvWriteFile ''post-restore.done'' True) \<and>
   (\<not> fst (run_unit ex_env_tools_fail ex_specs ''snap'' PreDataDump ex_world) \<and>
    \<not> file_exists ex_world (unit_marker ex_specs PreDataDump) \<and>
    \<not> file_exists ?failed (unit_marker ex_specs PreDataDump))"
    using marked c1 c2 c3 ran ex_units(1) ex_units(3) run3
    by (simp add: prod_eq_iff)
  have last: "file_exists ex_world_no_archive (unit_marker ex_specs PostDataRestore) \<and>
    \<not> file_exists ex_world_no_archive (unit_archive ex_specs PostDataRestore) \<and>
    ?gone = (False, ex_world_no_archive)"
    using gone c4 by (simp add: prod_eq_iff)
  from first last show ?thesis
    by blast
qed

text \<open>
  The claim as first stated fails for a restore unit whose archive is gone: the done
  file exists, and yet the unit does not return success, because the archive is looked
  for before the done file.
\<close>

theorem done_marker_without_archive_counterexample:
  "file_exists ex_world_no_archive (preDataRestore (done_paths (cfPaths ex_specs))) \<and>
   copydb_target_prepare_schema ex_env ex_specs ex_world_no_archive = (False, ex_world_no_archive) \<and>
   file_exists ex_world_no_archive (postDataRestore (done_paths (cfPaths ex_specs))) \<and>
   copydb_target_finalize_schema ex_env ex_specs ex_world_no_archive = (False, ex_world_no_archive)"
  by (simp add: ex_defs run_defs)

subsection \<open>The extension-config copier\<close>

lemma ex_child_copy_fails:
  "copydb_copy_extensions ex_env_copy_fails ex_specs_extension False ex_world =
     (False, ex_world \<lparr> trace :=
        [EvConnect \<lparr>connectionString = ''dst'', connectionType = PGSQL_CONN_TARGET\<rparr> True,
         EvPgCopy (''(SELECT * FROM '' @ dquote @ ''public'' @ dquote @ ''.'' @ dquote @
                   ''spatial_ref_sys'' @ dquote @ '' WHERE srid > 900000)'')
                  (dquote @ ''public'' @ dquote @ ''.'' @ dquote @ ''spatial_ref_sys'' @ dquote)
                  False] \<rparr>)"
  by (simp add: copydb_copy_extensions_def pgsql_init_def pg_copy_def log_event_def sformat_def
      NAMEDATALEN_def dquote_def ex_defs Let_def)

text \<open>
  C9. In the process that called it, once \<open>fork\<close> has succeeded,
  \<open>copydb_start_extension_data_process\<close> returns success at once and leaves the
  caller's world as it was: it does not wait for the child and nothing of the child's copy
  reaches the caller, whatever the surroundings make of that copy. In the child the call
  never returns: the outcome of \<open>copydb_copy_extensions\<close> only shows in the child's exit
  code, \<open>EXIT_CODE_INTERNAL_ERROR\<close> when the copy failed.
\<close>

theorem extension_process_detached:
  "(fpid \<noteq> - 1 \<and> fpid \<noteq> 0 \<longrightarrow>
      copydb_start_extension_data_process e specs fpid w = (Returned True, w)) \<and>
   (\<not> skipExtensions specs \<longrightarrow>
      copydb_start_extension_data_process e specs 0 w =
        (Exited (if fst (copydb_copy_extensions e specs False w)
                 then EXIT_CODE_QUIT else EXIT_CODE_INTERNAL_ERROR),
         snd (copydb_copy_extensions e specs False w)))"
  by (simp add: copydb_start_extension_data_process_def Let_def split: prod.splits)

theorem extension_process_detached_witness:
  "\<not> skipExtensions ex_specs_extension \<and>
   \<not> fst (copydb_copy_extensions ex_env_copy_fails ex_specs_extension False ex_world) \<and>
   copydb_start_extension_data_process ex_env_copy_fails ex_specs_extension 4711 ex_world =
     (Returned True, ex_world) \<and>
   fst (copydb_start_extension_data_process ex_env_copy_fails ex_specs_extension 0 ex_world) =
     Exited EXIT_CODE_INTERNAL_ERROR"
proof -
  have enabled: "\<not> skipExtensions ex_specs_extension"
    by (simp add: ex_defs)
  have failed: "\<not> fst (copydb_copy_extensions ex_env_copy_fails ex_specs_extension False ex_world)"
    by (simp add: ex_child_copy_fails)
  have parent: "(4711 :: int) \<noteq> - 1 \<and> (4711 :: int) \<noteq> 0"
    by simp
  from extension_process_detached [of 4711 ex_env_copy_fails ex_specs_extension ex_world]
    extension_process_detached [of 0 ex_env_copy_fails ex_specs_extension ex_world]
    enabled failed parent
  show ?thesis
    by simp
qed

subsection \<open>The stream applier\<close>

lemmas replay_ex_defs = ex_replay_env_def ex_stream_specs_def ex_stream_def ex_parse_def
  ex_context_def ex_stream_head_def ex_stream_tail_def ex_after_commit_150_def
  ex_after_commit_50_def ex_stream_unparsed_def ex_after_begin_50_def
  ex_events_to_keepalive_def ex_stopped_at_begin_150_def ex_drained_at_begin_150_def
  ex_after_commit_200_def ex_at_unparsed_line_def ex_replay_env_insert_fails_def
  spec_stream_apply_sql_def spec_send_sync_sentinel_def spec_fetch_sync_sentinel_def
  spec_sync_sentinel_def

lemmas replay_defs = stream_apply_replay_def replay_setup_def stream_replay_line_def
  call_helper_def record_event_def zero_context_def InvalidXLogRecPtr_def

lemma rtrace_record_event [simp]: "rtrace (record_event ev s) = rtrace s @ [ev]"
  by (simp add: record_event_def)

lemma applyContext_record_event [simp]: "applyContext (record_event ev s) = applyContext s"
  by (simp add: record_event_def)

lemma call_helper_result:
  "call_helper helper ev s = (ok, s') \<Longrightarrow>
     rtrace s' = rtrace s @ [ev ok] \<and>
     ok = (helper (clock s) (rtrace s) (applyContext s) \<noteq> None) \<and>
     (ok \<longrightarrow> helper (clock s) (rtrace s) (applyContext s) = Some (applyContext s'))"
  by (auto simp: call_helper_def split: option.splits)

text \<open>What one call of the callback decides about stopping.\<close>

lemma replay_line_stop:
  assumes "stream_replay_line env line s = (True, stop, s')"
  shows "stop = reachedEndPos (applyContext s')"
    and "endpos_reached (applyContext s') \<Longrightarrow> stop"
  using assms
  by (auto simp: stream_replay_line_def endpos_reached_def Let_def
      split: option.splits prod.splits if_splits)

lemma read_stops_at_endpos:
  assumes "read_from_stream env (pre @ [item]) s = (True, s')"
      and "endpos_reached (applyContext s')"
  shows "read_from_stream env (pre @ item # rest) s = (True, s')"
  using assms
proof (induction pre arbitrary: s)
  case Nil
  show ?case
  proof (cases item)
    case (Line now line)
    obtain ok stop s1
      where l: "stream_replay_line env line (s\<lparr>clock := now\<rparr>) = (ok, stop, s1)"
      by (cases "stream_replay_line env line (s\<lparr>clock := now\<rparr>)") auto
    with Nil Line have ok: "ok" and s1: "s1 = s'"
      by (auto split: if_splits bool.splits)
    from l ok s1 have l': "stream_replay_line env line (s\<lparr>clock := now\<rparr>) = (True, stop, s')"
      by simp
    from replay_line_stop(2) [OF l' Nil.prems(2)] l' Line show ?thesis
      by simp
  next
    case ReadFailure
    with Nil show ?thesis by simp
  qed
next
  case (Cons x pre)
  show ?case
  proof (cases x)
    case (Line now line)
    obtain ok stop s1
      where l: "stream_replay_line env line (s\<lparr>clock := now\<rparr>) = (ok, stop, s1)"
      by (cases "stream_replay_line env line (s\<lparr>clock := now\<rparr>)") auto
    with Cons.prems Line have ok: "ok"
      by (auto split: if_splits bool.splits)
    show ?thesis
    proof (cases stop)
      case True
      with l ok Line Cons.prems show ?thesis by simp
    next
      case False
      with l ok Line Cons.prems have "read_from_stream env (pre @ [item]) s1 = (True, s')"
        by simp
      from Cons.IH [OF this Cons.prems(2)] l ok False Line show ?thesis
        by simp
    qed
  next
    case ReadFailure
    with Cons.prems show ?thesis by simp
  qed
qed

lemma read_stops_when_flagged:
  assumes "read_from_stream env (pre @ [item]) s = (True, s')"
      and "reachedEndPos (applyContext s')"
  shows "read_from_stream env (pre @ item # rest) s = (True, s')"
  using assms
proof (induction pre arbitrary: s)
  case Nil
  show ?case
  proof (cases item)
    case (Line now line)
    obtain ok stop s1
      where l: "stream_replay_line env line (s\<lparr>clock := now\<rparr>) = (ok, stop, s1)"
      by (cases "stream_replay_line env line (s\<lparr>clock := now\<rparr>)") auto
    with Nil Line have ok: "ok" and s1: "s1 = s'"
      by (auto split: if_splits bool.splits)
    from l ok s1 have l': "stream_replay_line env line (s\<lparr>clock := now\<rparr>) = (True, stop, s')"
      by simp
    from replay_line_stop(1) [OF l'] Nil.prems(2) l' Line show ?thesis
      by simp
  next
    case ReadFailure
    with Nil show ?thesis by simp
  qed
next
  case (Cons x pre)
  show ?case
  proof (cases x)
    case (Line now line)
    obtain ok stop s1
      where l: "stream_replay_line env line (s\<lparr>clock := now\<rparr>) = (ok, stop, s1)"
      by (cases "stream_replay_line env line (s\<lparr>clock := now\<rparr>)") auto
    with Cons.prems Line have ok: "ok"
      by (auto split: if_splits bool.splits)
    show ?thesis
    proof (cases stop)
      case True
      with l ok Line Cons.prems show ?thesis by simp
    next
      case False
      with l ok Line Cons.prems have "read_from_stream env (pre @ [item]) s1 = (True, s')"
        by simp
      from Cons.IH [OF this Cons.prems(2)] l ok False Line show ?thesis
        by simp
    qed
  next
    case ReadFailure
    with Cons.prems show ?thesis by simp
  qed
qed

lemma read_stops:
  assumes "read_from_stream env (pre @ [item]) s = (True, s')"
      and "endpos_reached (applyContext s') \<or> reachedEndPos (applyContext s')"
  shows "read_from_stream env (pre @ item # rest) s = (True, s')"
  using assms read_stops_at_endpos read_stops_when_flagged by blast

lemma read_goes_on_before_endpos:
  assumes "read_from_stream env pre s = (True, s1)"
      and "\<not> reachedEndPos (applyContext s1)"
  shows "read_from_stream env (pre @ rest) s = read_from_stream env rest s1"
  using assms
proof (induction pre arbitrary: s)
  case Nil
  then show ?case by simp
next
  case (Cons x pre)
  show ?case
  proof (cases x)
    case (Line now line)
    obtain ok stop s2
      where l: "stream_replay_line env line (s\<lparr>clock := now\<rparr>) = (ok, stop, s2)"
      by (cases "stream_replay_line env line (s\<lparr>clock := now\<rparr>)") auto
    with Cons.prems Line have ok: "ok"
      by (auto split: if_splits bool.splits)
    show ?thesis
    proof (cases stop)
      case True
      with l ok Line Cons.prems have "s2 = s1" by simp
      with l ok have "stream_replay_line env line (s\<lparr>clock := now\<rparr>) = (True, stop, s1)"
        by simp
      from replay_line_stop(1) [OF this] True Cons.prems(2) show ?thesis
        by simp
    next
      case False
      with l ok Line Cons.prems have "read_from_stream env pre s2 = (True, s1)"
        by simp
      from Cons.IH [OF this Cons.prems(2)] l ok False Line show ?thesis
        by simp
    qed
  next
    case ReadFailure
    with Cons.prems show ?thesis by simp
  qed
qed

lemma replay_startup_shortcut:
  assumes "replay_setup env specs = Some c" and "endpos_reached c"
  shows "stream_apply_replay env specs input = Some (True, replay_start c)"
  using assms
  by (simp add: stream_apply_replay_def endpos_reached_def replay_start_def)

text \<open>The events of a line, of a read, and of the draining loop.\<close>

lemma replay_line_events:
  assumes "stream_replay_line env line s = (ok, stop, s')"
  shows "\<exists>evs. rtrace s' = rtrace s @ evs \<and> list_all is_progress_event evs"
  using assms
  by (auto simp: stream_replay_line_def call_helper_def Let_def
      split: option.splits prod.splits if_splits)

lemma read_events:
  assumes "read_from_stream env input s = (r, s')"
  shows "\<exists>evs. rtrace s' = rtrace s @ evs \<and> list_all is_progress_event evs"
  using assms
proof (induction input arbitrary: s)
  case Nil
  then show ?case by simp
next
  case (Cons x input)
  show ?case
  proof (cases x)
    case (Line now line)
    obtain ok stop s1
      where l: "stream_replay_line env line (s\<lparr>clock := now\<rparr>) = (ok, stop, s1)"
      by (cases "stream_replay_line env line (s\<lparr>clock := now\<rparr>)") auto
    from replay_line_events [OF l] obtain evs1
      where e1: "rtrace s1 = rtrace s @ evs1" "list_all is_progress_event evs1"
      by auto
    show ?thesis
    proof (cases "ok \<and> \<not> stop")
      case True
      with l Line Cons.prems have "read_from_stream env input s1 = (r, s')"
        by simp
      from Cons.IH [OF this] obtain evs2
        where "rtrace s' = rtrace s1 @ evs2" "list_all is_progress_event evs2"
        by blast
      with e1 have "rtrace s' = rtrace s @ (evs1 @ evs2) \<and> list_all is_progress_event (evs1 @ evs2)"
        by simp
      then show ?thesis by blast
    next
      case False
      with l Line Cons.prems have "s' = s1"
        by (auto split: bool.splits if_splits)
      with e1 show ?thesis by blast
    qed
  next
    case ReadFailure
    with Cons.prems show ?thesis by simp
  qed
qed

lemma drain_events:
  assumes "drain_sentinel env s = Some y"
  shows "\<exists>evs. rtrace (snd y) = rtrace s @ evs \<and> list_all is_drain_event evs"
proof (rule drain_sentinel.raw_induct
    [where P = "\<lambda>env s y. \<exists>evs. rtrace (snd y) = rtrace s @ evs \<and> list_all is_drain_event evs",
     OF _ assms])
  fix drain env s y
  assume IH: "\<And>env s y. drain env s = Some y \<Longrightarrow>
                \<exists>evs. rtrace (snd y) = rtrace s @ evs \<and> list_all is_drain_event evs"
    and body: "(if sentinelQueryInProgress (applyContext s)
                then case call_helper (stream_apply_fetch_sync_sentinel env) RFetchSyncSentinel s of
                       (fetched, s1) \<Rightarrow>
                         if \<not> fetched then Some (False, s1)
                         else drain env (record_event RSleep s1)
                else Some (True, s)) = Some y"
  show "\<exists>evs. rtrace (snd y) = rtrace s @ evs \<and> list_all is_drain_event evs"
  proof (cases "sentinelQueryInProgress (applyContext s)")
    case False
    with body show ?thesis by auto
  next
    case True
    obtain fetched s1
      where f: "call_helper (stream_apply_fetch_sync_sentinel env) RFetchSyncSentinel s = (fetched, s1)"
      by (cases "call_helper (stream_apply_fetch_sync_sentinel env) RFetchSyncSentinel s") auto
    from call_helper_result [OF f] have t1: "rtrace s1 = rtrace s @ [RFetchSyncSentinel fetched]"
      by simp
    show ?thesis
    proof (cases fetched)
      case False
      with True f body have "y = (False, s1)" by simp
      with t1 show ?thesis by simp
    next
      case fetched: True
      with True f body have "drain env (record_event RSleep s1) = Some y" by simp
      from IH [OF this] obtain evs
        where "rtrace (snd y) = rtrace (record_event RSleep s1) @ evs" "list_all is_drain_event evs"
        by blast
      with t1 have "rtrace (snd y) = rtrace s @ ([RFetchSyncSentinel fetched, RSleep] @ evs) \<and>
                    list_all is_drain_event ([RFetchSyncSentinel fetched, RSleep] @ evs)"
        by simp
      then show ?thesis by blast
    qed
  qed
qed

lemma progress_not_sync: "list_all is_progress_event evs \<Longrightarrow> \<not> list_ex is_sync_sentinel evs"
  by (induction evs) (auto elim: is_progress_event.elims)

lemma drain_not_sync: "list_all is_drain_event evs \<Longrightarrow> \<not> list_ex is_sync_sentinel evs"
  by (induction evs) (auto elim: is_drain_event.elims)

lemma replay_after_read:
  assumes "replay_setup env specs = Some c" and "\<not> endpos_reached c"
      and "src_pgsql_init_succeeds env c"
      and "read_from_stream env input (replay_start c) = (True, s1)"
      and "drain_sentinel env s1 = Some (True, s2)"
      and "stream_apply_replay env specs input = Some (r, s)"
  shows "rtrace s = rtrace s2 @ [RPgsqlFinish, RSyncSentinel (replay_lsn (applyContext s2)) r]"
  using assms
  by (auto simp: stream_apply_replay_def endpos_reached_def replay_start_def call_helper_def
      split: option.splits)

lemma replay_exits:
  assumes "stream_apply_replay env specs input = Some (r, s)"
  shows "(\<exists>evs pos. rtrace s = evs @ [RPgsqlFinish, RSyncSentinel pos r]) \<or>
         (\<not> list_ex is_sync_sentinel (rtrace s) \<and> (r \<longrightarrow> rtrace s = []))"
proof (cases "replay_setup env specs")
  case None
  with assms show ?thesis
    by (auto simp: stream_apply_replay_def)
next
  case (Some c)
  show ?thesis
  proof (cases "endpos_reached c \<or> \<not> src_pgsql_init_succeeds env c")
    case True
    with Some assms show ?thesis
      by (auto simp: stream_apply_replay_def endpos_reached_def split: if_splits)
  next
    case False
    obtain ok s1 where rd: "read_from_stream env input (replay_start c) = (ok, s1)"
      by (cases "read_from_stream env input (replay_start c)") auto
    from read_events [OF rd] obtain evs1
      where e1: "rtrace s1 = evs1" "list_all is_progress_event evs1"
      by (auto simp: replay_start_def)
    show ?thesis
    proof (cases ok)
      case False
      with Some \<open>\<not> (endpos_reached c \<or> \<not> src_pgsql_init_succeeds env c)\<close> rd assms
      have "s = s1" "\<not> r"
        by (auto simp: stream_apply_replay_def endpos_reached_def replay_start_def)
      with e1 progress_not_sync show ?thesis by auto
    next
      case True
      with Some \<open>\<not> (endpos_reached c \<or> \<not> src_pgsql_init_succeeds env c)\<close> rd assms
      obtain y where dr: "drain_sentinel env s1 = Some y"
        by (auto simp: stream_apply_replay_def endpos_reached_def replay_start_def
            split: option.splits)
      from drain_events [OF dr] obtain evs2
        where e2: "rtrace (snd y) = rtrace s1 @ evs2" "list_all is_drain_event evs2"
        by blast
      show ?thesis
      proof (cases "fst y")
        case False
        with Some \<open>\<not> (endpos_reached c \<or> \<not> src_pgsql_init_succeeds env c)\<close> rd True dr assms
        have "s = snd y" "\<not> r"
          by (auto simp: stream_apply_replay_def endpos_reached_def replay_start_def
              split: prod.splits)
        with e1 e2 progress_not_sync [OF e1(2)] drain_not_sync [OF e2(2)] show ?thesis
          by (auto simp: list_ex_iff)
      next
        case drained: True
        then have "drain_sentinel env s1 = Some (True, snd y)"
          using dr by (cases y) simp
        from replay_after_read [OF Some _ _ _ this assms] False rd True
        show ?thesis by auto
      qed
    qed
  qed
qed

subsection \<open>Replay up to the end position, with the helpers of the specification\<close>

lemma fold_max_at_bound:
  fixes e :: "'a :: linorder"
  shows "\<forall>x \<in> set xs. x \<le> e \<Longrightarrow> fold max xs e = e"
  by (induction xs) (simp_all add: max_absorb2)

lemma fold_max_upto_bound:
  fixes e :: "'a :: linorder"
  shows "p \<le> e \<Longrightarrow> fold max (filter (\<lambda>l. l \<le> e) xs) p \<le> e"
  by (induction xs arbitrary: p) simp_all

lemma commit_order_tail: "commit_order (m # ms) \<Longrightarrow> commit_order ms"
  by (simp add: commit_order_def split: if_splits)

lemma commit_order_later:
  assumes "commit_order (m # ms)"
      and "action m = STREAM_ACTION_BEGIN \<or> action m = STREAM_ACTION_COMMIT"
  shows "\<forall>l \<in> set (commit_lsns ms). commit_lsn m \<le> l"
  using assms by (auto simp: commit_order_def commit_lsns_def)

lemma commit_lsns_Cons:
  "commit_lsns (m # ms) =
     (if action m = STREAM_ACTION_COMMIT then commit_lsn m # commit_lsns ms else commit_lsns ms)"
  by (simp add: commit_lsns_def)

text \<open>One line, replayed before the end position is reached.\<close>

lemma spec_replay_line:
  assumes "helpers_as_specified env" and "parseSQLAction env line = Some m"
      and "\<not> reachedEndPos (applyContext s)"
      and "endpos (applyContext s) \<noteq> InvalidXLogRecPtr"
      and "previousLSN (applyContext s) < endpos (applyContext s)"
  shows "\<exists>stop s'. stream_replay_line env line s = (True, stop, s') \<and>
           endpos (applyContext s') = endpos (applyContext s) \<and>
           previousLSN (applyContext s') =
             (if action m = STREAM_ACTION_COMMIT \<and> commit_lsn m \<le> endpos (applyContext s)
              then max (commit_lsn m) (previousLSN (applyContext s))
              else previousLSN (applyContext s)) \<and>
           stop = (action m = STREAM_ACTION_BEGIN \<and> endpos (applyContext s) < commit_lsn m \<or>
                   action m = STREAM_ACTION_COMMIT \<and> commit_lsn m = endpos (applyContext s)) \<and>
           (\<not> stop \<longrightarrow> \<not> reachedEndPos (applyContext s'))"
  using assms
  by (auto simp: stream_replay_line_def call_helper_def record_event_def
      helpers_as_specified_def spec_stream_apply_sql_def spec_send_sync_sentinel_def
      spec_fetch_sync_sentinel_def InvalidXLogRecPtr_def Let_def max_def)

lemma read_to_endpos:
  assumes "helpers_as_specified env"
  shows "readable env input \<Longrightarrow> commit_order (stream_messages env input) \<Longrightarrow>
         \<not> reachedEndPos (applyContext s) \<Longrightarrow>
         endpos (applyContext s) \<noteq> InvalidXLogRecPtr \<Longrightarrow>
         previousLSN (applyContext s) < endpos (applyContext s) \<Longrightarrow>
         \<exists>s'. read_from_stream env input s = (True, s') \<and>
              previousLSN (applyContext s') =
                fold max (filter (\<lambda>l. l \<le> endpos (applyContext s))
                            (commit_lsns (stream_messages env input)))
                  (previousLSN (applyContext s))"
proof (induction input arbitrary: s)
  case Nil
  then show ?case by (simp add: commit_lsns_def)
next
  case (Cons x input)
  show ?case
  proof (cases x)
    case ReadFailure
    with Cons.prems show ?thesis by simp
  next
    case (Line now line)
    with Cons.prems(1) obtain m where parsed: "parseSQLAction env line = Some m"
      and rest_readable: "readable env input"
      by auto
    let ?e = "endpos (applyContext s)"
    let ?p = "previousLSN (applyContext s)"
    let ?ms = "stream_messages env input"
    from Line parsed have msgs: "stream_messages env (x # input) = m # ?ms"
      by simp
    with Cons.prems(2) have order: "commit_order (m # ?ms)"
      by simp
    from spec_replay_line [OF assms parsed, of "s\<lparr>clock := now\<rparr>"] Cons.prems(3,4,5)
    obtain stop t where l: "stream_replay_line env line (s\<lparr>clock := now\<rparr>) = (True, stop, t)"
      and e: "endpos (applyContext t) = ?e"
      and p: "previousLSN (applyContext t) =
                (if action m = STREAM_ACTION_COMMIT \<and> commit_lsn m \<le> ?e
                 then max (commit_lsn m) ?p else ?p)"
      and stop: "stop = (action m = STREAM_ACTION_BEGIN \<and> ?e < commit_lsn m \<or>
                         action m = STREAM_ACTION_COMMIT \<and> commit_lsn m = ?e)"
      and flag: "\<not> stop \<longrightarrow> \<not> reachedEndPos (applyContext t)"
      by auto
    have step: "fold max (filter (\<lambda>l. l \<le> ?e) (commit_lsns (m # ?ms))) ?p =
                fold max (filter (\<lambda>l. l \<le> ?e) (commit_lsns ?ms)) (previousLSN (applyContext t))"
      using p by (simp add: commit_lsns_Cons)
    show ?thesis
    proof (cases stop)
      case False
      with stop p Cons.prems(5) have below: "previousLSN (applyContext t) < ?e"
        by (auto simp: max_def)
      from False flag have "\<not> reachedEndPos (applyContext t)"
        by simp
      from Cons.IH [OF rest_readable commit_order_tail [OF order] this] e below Cons.prems(4)
      obtain s' where "read_from_stream env input t = (True, s')"
        "previousLSN (applyContext s') =
           fold max (filter (\<lambda>l. l \<le> ?e) (commit_lsns ?ms)) (previousLSN (applyContext t))"
        by auto
      with l False Line msgs step show ?thesis
        by simp
    next
      case True
      with l Line have rd: "read_from_stream env (x # input) s = (True, t)"
        by simp
      from True stop consider
        (beyond) "action m = STREAM_ACTION_BEGIN" "?e < commit_lsn m"
      | (reached) "action m = STREAM_ACTION_COMMIT" "commit_lsn m = ?e"
        by blast
      then have "fold max (filter (\<lambda>l. l \<le> ?e) (commit_lsns ?ms)) (previousLSN (applyContext t)) =
                 previousLSN (applyContext t)"
      proof cases
        case beyond
        with commit_order_later [OF order] have "\<forall>l \<in> set (commit_lsns ?ms). \<not> l \<le> ?e"
          by auto
        then have "filter (\<lambda>l. l \<le> ?e) (commit_lsns ?ms) = []"
          by (simp add: filter_empty_conv)
        then show ?thesis by simp
      next
        case reached
        with p Cons.prems(5) have "previousLSN (applyContext t) = ?e"
          by (auto simp: max_def)
        then show ?thesis
          by (simp add: fold_max_at_bound)
      qed
      with rd msgs step show ?thesis
        by simp
    qed
  qed
qed

text \<open>The draining loop ends at once, or after one fetch.\<close>

lemma drain_as_specified:
  assumes "helpers_as_specified env"
  shows "\<exists>u. drain_sentinel env t = Some (True, u) \<and>
             previousLSN (applyContext u) = previousLSN (applyContext t)"
proof (cases "sentinelQueryInProgress (applyContext t)")
  case False
  then show ?thesis
    by (subst drain_sentinel.simps) simp
next
  case True
  let ?u = "record_event RSleep
              (record_event (RFetchSyncSentinel True)
                 (t\<lparr>applyContext := (applyContext t)\<lparr>sentinelQueryInProgress := False\<rparr>\<rparr>))"
  from assms have fetch:
    "call_helper (stream_apply_fetch_sync_sentinel env) RFetchSyncSentinel t =
       (True, record_event (RFetchSyncSentinel True)
                (t\<lparr>applyContext := (applyContext t)\<lparr>sentinelQueryInProgress := False\<rparr>\<rparr>))"
    by (simp add: call_helper_def helpers_as_specified_def spec_fetch_sync_sentinel_def)
  have "drain_sentinel env ?u = Some (True, ?u)"
    by (subst drain_sentinel.simps) simp
  with True fetch have "drain_sentinel env t = Some (True, ?u)"
    by (subst drain_sentinel.simps) simp
  then show ?thesis
    by simp
qed

lemma replay_to_endpos:
  assumes "helpers_as_specified env" and "replay_setup env specs = Some c"
      and "src_pgsql_init_succeeds env c"
      and "endpos c \<noteq> InvalidXLogRecPtr" and "previousLSN c < endpos c"
      and "\<not> reachedEndPos c"
      and "readable env input" and "commit_order (stream_messages env input)"
  shows "\<exists>u. stream_apply_replay env specs input = Some (True, u) \<and>
             previousLSN (applyContext u) =
               greatest_commit_upto (endpos c) (previousLSN c) (stream_messages env input) \<and>
             previousLSN (applyContext u) \<le> endpos c"
proof -
  let ?xs = "filter (\<lambda>l. l \<le> endpos c) (commit_lsns (stream_messages env input))"
  from read_to_endpos [OF assms(1) assms(7,8), of "replay_start c"] assms(4,5,6)
  obtain t where rd: "read_from_stream env input (replay_start c) = (True, t)"
    and pt: "previousLSN (applyContext t) = fold max ?xs (previousLSN c)"
    by (auto simp: replay_start_def)
  from drain_as_specified [OF assms(1), of t]
  obtain d where dr: "drain_sentinel env t = Some (True, d)"
    and pd: "previousLSN (applyContext d) = previousLSN (applyContext t)"
    by blast
  let ?u = "record_event (RSyncSentinel (replay_lsn (applyContext d)) True)
              (record_event RPgsqlFinish d)"
  from assms(1) have sync:
    "call_helper (stream_apply_sync_sentinel env) (RSyncSentinel (replay_lsn (applyContext d)))
       (record_event RPgsqlFinish d) = (True, ?u)"
    by (simp add: call_helper_def helpers_as_specified_def spec_sync_sentinel_def record_event_def)
  from assms(2,3,4,5) rd dr sync
  have run: "stream_apply_replay env specs input = Some (True, ?u)"
    by (simp add: stream_apply_replay_def replay_start_def)
  have "previousLSN (applyContext ?u) = fold max ?xs (previousLSN c)"
    using pd pt by simp
  moreover have "fold max ?xs (previousLSN c) =
                 greatest_commit_upto (endpos c) (previousLSN c) (stream_messages env input)"
    by (simp only: greatest_commit_upto_def Max.set_eq_fold)
  moreover from assms(5) have "fold max ?xs (previousLSN c) \<le> endpos c"
    by (simp add: fold_max_upto_bound)
  ultimately show ?thesis
    using run by auto
qed

subsection \<open>The example run of the applier, evaluated\<close>

lemma ex_setup: "replay_setup ex_replay_env (ex_stream_specs pos) = Some (ex_context pos)"
  by (simp add: replay_setup_def zero_context_def replay_ex_defs)

lemma ex_read_to_commit_150:
  "read_from_stream ex_replay_env (ex_stream_head @ [Line 14 ''COMMIT 150''])
     (replay_start (ex_context 150)) = (True, ex_after_commit_150)"
  by (simp add: replay_defs replay_ex_defs replay_start_def Let_def)

lemma ex_read_to_commit_50:
  "read_from_stream ex_replay_env (take 3 ex_stream_head) (replay_start (ex_context 100)) =
     (True, ex_after_commit_50)"
  by (simp add: replay_defs replay_ex_defs replay_start_def Let_def)

lemma ex_read_to_begin_150:
  "read_from_stream ex_replay_env ex_stream (replay_start (ex_context 100)) =
     (True, ex_stopped_at_begin_150)"
  by (simp add: replay_defs replay_ex_defs replay_start_def Let_def)

lemma ex_read_to_flag:
  "read_from_stream ex_replay_env (take 4 ex_stream_head @ [Line 13 ''BEGIN 150''])
     (replay_start (ex_context 100)) = (True, ex_stopped_at_begin_150)"
  by (simp add: replay_defs replay_ex_defs replay_start_def Let_def)

lemma ex_read_to_commit_200:
  "read_from_stream ex_replay_env ex_stream (replay_start (ex_context 0)) =
     (True, ex_after_commit_200)"
  by (simp add: replay_defs replay_ex_defs replay_start_def Let_def)

lemma ex_drain_at_begin_150:
  "drain_sentinel ex_replay_env ex_stopped_at_begin_150 = Some (True, ex_drained_at_begin_150)"
  by (simp add: drain_sentinel.simps call_helper_def record_event_def replay_ex_defs)

lemma ex_endpos_reached:
  "endpos_reached (ex_context 5)" "\<not> endpos_reached (ex_context 100)"
  "endpos_reached (applyContext ex_after_commit_150)"
  "\<not> reachedEndPos (applyContext ex_after_commit_50)"
  "\<not> reachedEndPos (applyContext ex_after_begin_50)"
  "reachedEndPos (applyContext ex_stopped_at_begin_150)"
  "\<not> endpos_reached (applyContext ex_stopped_at_begin_150)"
  by (simp_all add: endpos_reached_def InvalidXLogRecPtr_def replay_ex_defs)

lemma ex_helpers_as_specified: "helpers_as_specified ex_replay_env"
  by (simp add: helpers_as_specified_def ex_replay_env_def)

lemma ex_stream_messages:
  "readable ex_replay_env ex_stream"
  "commit_order (stream_messages ex_replay_env ex_stream)"
  "commit_lsns (stream_messages ex_replay_env ex_stream) = [50, 150, 200]"
  "greatest_commit_upto 100 10 (stream_messages ex_replay_env ex_stream) = 50"
  by (simp_all add: greatest_commit_upto_def commit_lsns_def commit_order_def ex_replay_env_def
      ex_parse_def ex_stream_def ex_stream_head_def ex_stream_tail_def)

text \<open>
  C1. When the setup leaves a non-zero \<open>endpos\<close> that is at or below \<open>previousLSN\<close>,
  \<open>stream_apply_replay\<close> returns success at once and nothing is applied. During replay,
  once a line leaves the last applied commit-lsn (\<open>previousLSN\<close>) at or beyond a non-zero
  \<open>endpos\<close>, or leaves the end position flagged as reached, no further input is read:
  what follows in the stream changes neither the reader's result nor the applier's. As
  long as the end position is not flagged as reached, reading goes on with the next line. And with the helpers the specification
  describes, on a stream of lines that parse and whose transactions come in commit order,
  replayed from below a non-zero \<open>endpos\<close>: the applier returns success, and the last
  commit applied is the greatest commit-lsn of the stream that is at or below \<open>endpos\<close>
  (or the LSN reached at startup, when no transaction of the stream is committed at or
  below \<open>endpos\<close>); it never lies beyond \<open>endpos\<close>.
\<close>

theorem replay_respects_endpos:
  "(replay_setup env specs = Some c \<and> endpos_reached c \<longrightarrow>
      stream_apply_replay env specs input = Some (True, replay_start c)) \<and>
   (read_from_stream env (pre @ [item]) s = (True, s') \<and>
    (endpos_reached (applyContext s') \<or> reachedEndPos (applyContext s')) \<longrightarrow>
      read_from_stream env (pre @ item # rest) s = (True, s')) \<and>
   (replay_setup env specs = Some c \<and>
    read_from_stream env (pre @ [item]) (replay_start c) = (True, s') \<and>
    (endpos_reached (applyContext s') \<or> reachedEndPos (applyContext s')) \<longrightarrow>
      stream_apply_replay env specs (pre @ item # rest) =
      stream_apply_replay env specs (pre @ [item])) \<and>
   (read_from_stream env pre s = (True, t) \<and> \<not> reachedEndPos (applyContext t) \<longrightarrow>
      read_from_stream env (pre @ rest) s = read_from_stream env rest t) \<and>
   (helpers_as_specified env \<and> replay_setup env specs = Some c \<and>
    src_pgsql_init_succeeds env c \<and>
    endpos c \<noteq> InvalidXLogRecPtr \<and> previousLSN c < endpos c \<and> \<not> reachedEndPos c \<and>
    readable env input \<and> commit_order (stream_messages env input) \<longrightarrow>
      (\<exists>u. stream_apply_replay env specs input = Some (True, u) \<and>
           previousLSN (applyContext u) =
             greatest_commit_upto (endpos c) (previousLSN c) (stream_messages env input) \<and>
           previousLSN (applyContext u) \<le> endpos c))"
proof (intro conjI impI)
  assume "replay_setup env specs = Some c \<and> endpos_reached c"
  then show "stream_apply_replay env specs input = Some (True, replay_start c)"
    using replay_startup_shortcut by blast
next
  assume "read_from_stream env (pre @ [item]) s = (True, s') \<and>
          (endpos_reached (applyContext s') \<or> reachedEndPos (applyContext s'))"
  then show "read_from_stream env (pre @ item # rest) s = (True, s')"
    using read_stops by blast
next
  assume a: "replay_setup env specs = Some c \<and>
             read_from_stream env (pre @ [item]) (replay_start c) = (True, s') \<and>
             (endpos_reached (applyContext s') \<or> reachedEndPos (applyContext s'))"
  then have "read_from_stream env (pre @ item # rest) (replay_start c) = (True, s')"
    using read_stops by blast
  with a have "read_from_stream env (pre @ item # rest) (replay_start c) =
               read_from_stream env (pre @ [item]) (replay_start c)"
    by simp
  with a show "stream_apply_replay env specs (pre @ item # rest) =
               stream_apply_replay env specs (pre @ [item])"
    by (simp add: stream_apply_replay_def replay_start_def)
next
  assume "read_from_stream env pre s = (True, t) \<and> \<not> reachedEndPos (applyContext t)"
  then show "read_from_stream env (pre @ rest) s = read_from_stream env rest t"
    using read_goes_on_before_endpos by blast
next
  assume "helpers_as_specified env \<and> replay_setup env specs = Some c \<and>
          src_pgsql_init_succeeds env c \<and>
          endpos c \<noteq> InvalidXLogRecPtr \<and> previousLSN c < endpos c \<and> \<not> reachedEndPos c \<and>
          readable env input \<and> commit_order (stream_messages env input)"
  then show "\<exists>u. stream_apply_replay env specs input = Some (True, u) \<and>
           previousLSN (applyContext u) =
             greatest_commit_upto (endpos c) (previousLSN c) (stream_messages env input) \<and>
           previousLSN (applyContext u) \<le> endpos c"
    using replay_to_endpos by blast
qed

theorem replay_respects_endpos_witness:
  "(replay_setup ex_replay_env (ex_stream_specs 5) = Some (ex_context 5) \<and>
    endpos_reached (ex_context 5) \<and>
    stream_apply_replay ex_replay_env (ex_stream_specs 5) ex_stream =
      Some (True, replay_start (ex_context 5))) \<and>
   (read_from_stream ex_replay_env (ex_stream_head @ [Line 14 ''COMMIT 150''])
      (replay_start (ex_context 150)) = (True, ex_after_commit_150) \<and>
    endpos_reached (applyContext ex_after_commit_150) \<and>
    read_from_stream ex_replay_env ex_stream (replay_start (ex_context 150)) =
      (True, ex_after_commit_150) \<and>
    stream_apply_replay ex_replay_env (ex_stream_specs 150) ex_stream =
    stream_apply_replay ex_replay_env (ex_stream_specs 150)
      (ex_stream_head @ [Line 14 ''COMMIT 150''])) \<and>
   (read_from_stream ex_replay_env (take 4 ex_stream_head @ [Line 13 ''BEGIN 150''])
      (replay_start (ex_context 100)) = (True, ex_stopped_at_begin_150) \<and>
    reachedEndPos (applyContext ex_stopped_at_begin_150) \<and>
    \<not> endpos_reached (applyContext ex_stopped_at_begin_150) \<and>
    read_from_stream ex_replay_env ex_stream (replay_start (ex_context 100)) =
      (True, ex_stopped_at_begin_150)) \<and>
   (read_from_stream ex_replay_env (take 3 ex_stream_head) (replay_start (ex_context 100)) =
      (True, ex_after_commit_50) \<and>
    \<not> reachedEndPos (applyContext ex_after_commit_50) \<and>
    read_from_stream ex_replay_env (take 3 ex_stream_head @ ex_stream_tail)
      (replay_start (ex_context 100)) =
    read_from_stream ex_replay_env ex_stream_tail ex_after_commit_50) \<and>
   (helpers_as_specified ex_replay_env \<and>
    replay_setup ex_replay_env (ex_stream_specs 100) = Some (ex_context 100) \<and>
    previousLSN (ex_context 100) = 10 \<and> endpos (ex_context 100) = 100 \<and>
    readable ex_replay_env ex_stream \<and>
    commit_order (stream_messages ex_replay_env ex_stream) \<and>
    commit_lsns (stream_messages ex_replay_env ex_stream) = [50, 150, 200] \<and>
    (\<exists>u. stream_apply_replay ex_replay_env (ex_stream_specs 100) ex_stream = Some (True, u) \<and>
         previousLSN (applyContext u) = 50))"
proof -
  have first:
    "replay_setup ex_replay_env (ex_stream_specs 5) = Some (ex_context 5) \<and>
     endpos_reached (ex_context 5) \<and>
     stream_apply_replay ex_replay_env (ex_stream_specs 5) ex_stream =
       Some (True, replay_start (ex_context 5))"
    using replay_respects_endpos [where env = ex_replay_env and specs = "ex_stream_specs 5"
        and c = "ex_context 5" and input = ex_stream]
      ex_setup [of 5] ex_endpos_reached(1)
    by simp
  have second:
    "read_from_stream ex_replay_env (ex_stream_head @ [Line 14 ''COMMIT 150''])
       (replay_start (ex_context 150)) = (True, ex_after_commit_150) \<and>
     endpos_reached (applyContext ex_after_commit_150) \<and>
     read_from_stream ex_replay_env ex_stream (replay_start (ex_context 150)) =
       (True, ex_after_commit_150) \<and>
     stream_apply_replay ex_replay_env (ex_stream_specs 150) ex_stream =
     stream_apply_replay ex_replay_env (ex_stream_specs 150)
       (ex_stream_head @ [Line 14 ''COMMIT 150''])"
    using replay_respects_endpos [where env = ex_replay_env and specs = "ex_stream_specs 150"
        and c = "ex_context 150" and pre = ex_stream_head and item = "Line 14 ''COMMIT 150''"
        and rest = ex_stream_tail and s = "replay_start (ex_context 150)"
        and s' = ex_after_commit_150]
      ex_setup [of 150] ex_read_to_commit_150 ex_endpos_reached(3)
    by (simp add: ex_stream_def)
  have whole: "take 4 ex_stream_head @ Line 13 ''BEGIN 150'' # drop 5 ex_stream = ex_stream"
    by (simp add: ex_stream_def ex_stream_head_def)
  have flagged:
    "read_from_stream ex_replay_env (take 4 ex_stream_head @ [Line 13 ''BEGIN 150''])
       (replay_start (ex_context 100)) = (True, ex_stopped_at_begin_150) \<and>
     reachedEndPos (applyContext ex_stopped_at_begin_150) \<and>
     \<not> endpos_reached (applyContext ex_stopped_at_begin_150) \<and>
     read_from_stream ex_replay_env ex_stream (replay_start (ex_context 100)) =
       (True, ex_stopped_at_begin_150)"
    using replay_respects_endpos [where env = ex_replay_env
        and pre = "take 4 ex_stream_head" and item = "Line 13 ''BEGIN 150''"
        and rest = "drop 5 ex_stream" and s = "replay_start (ex_context 100)"
        and s' = ex_stopped_at_begin_150, THEN conjunct2, THEN conjunct1]
      ex_read_to_flag ex_endpos_reached(6,7)
    by (simp only: whole simp_thms)
  have third:
    "read_from_stream ex_replay_env (take 3 ex_stream_head) (replay_start (ex_context 100)) =
       (True, ex_after_commit_50) \<and>
     \<not> reachedEndPos (applyContext ex_after_commit_50) \<and>
     read_from_stream ex_replay_env (take 3 ex_stream_head @ ex_stream_tail)
       (replay_start (ex_context 100)) =
     read_from_stream ex_replay_env ex_stream_tail ex_after_commit_50"
    using replay_respects_endpos [where env = ex_replay_env
        and pre = "take 3 ex_stream_head" and rest = ex_stream_tail
        and s = "replay_start (ex_context 100)" and t = ex_after_commit_50]
      ex_read_to_commit_50 ex_endpos_reached(4)
    by simp
  have start: "previousLSN (ex_context 100) = 10" "endpos (ex_context 100) = 100"
    "src_pgsql_init_succeeds ex_replay_env (ex_context 100)"
    "\<not> reachedEndPos (ex_context 100)"
    by (simp_all add: ex_context_def ex_replay_env_def)
  have "\<exists>u. stream_apply_replay ex_replay_env (ex_stream_specs 100) ex_stream = Some (True, u) \<and>
            previousLSN (applyContext u) = 50"
    using replay_respects_endpos [where env = ex_replay_env and specs = "ex_stream_specs 100"
        and c = "ex_context 100" and input = ex_stream,
        THEN conjunct2, THEN conjunct2, THEN conjunct2, THEN conjunct2]
      ex_helpers_as_specified ex_setup [of 100] start ex_stream_messages
    by (auto simp: InvalidXLogRecPtr_def)
  with ex_helpers_as_specified ex_setup [of 100] start ex_stream_messages
  have fourth:
    "helpers_as_specified ex_replay_env \<and>
     replay_setup ex_replay_env (ex_stream_specs 100) = Some (ex_context 100) \<and>
     previousLSN (ex_context 100) = 10 \<and> endpos (ex_context 100) = 100 \<and>
     readable ex_replay_env ex_stream \<and>
     commit_order (stream_messages ex_replay_env ex_stream) \<and>
     commit_lsns (stream_messages ex_replay_env ex_stream) = [50, 150, 200] \<and>
     (\<exists>u. stream_apply_replay ex_replay_env (ex_stream_specs 100) ex_stream = Some (True, u) \<and>
          previousLSN (applyContext u) = 50)"
    by blast
  from first second flagged third fourth show ?thesis
    by blast
qed

subsection \<open>The final sentinel update\<close>

lemma replay_after_failed_read:
  assumes "replay_setup env specs = Some c" and "\<not> endpos_reached c"
      and "src_pgsql_init_succeeds env c"
      and "read_from_stream env input (replay_start c) = (False, t)"
      and "stream_apply_replay env specs input = Some (r, s)"
  shows "\<not> r \<and> s = t \<and> \<not> list_ex is_sync_sentinel (rtrace s)"
proof -
  from assms have "\<not> r" "s = t"
    by (auto simp: stream_apply_replay_def endpos_reached_def replay_start_def)
  moreover from read_events [OF assms(4)] have "list_all is_progress_event (rtrace t)"
    by (auto simp: replay_start_def)
  ultimately show ?thesis
    using progress_not_sync by blast
qed

text \<open>The read of a stream whose next item fails, after a part that was read without stopping.\<close>

lemma read_fails_at_line:
  assumes "read_from_stream env pre s = (True, t)" and "\<not> reachedEndPos (applyContext t)"
  shows "parseSQLAction env line = None \<Longrightarrow>
           read_from_stream env (pre @ Line now line # rest) s = (False, t\<lparr>clock := now\<rparr>)"
    and "parseSQLAction env line = Some metadata \<Longrightarrow>
         stream_apply_sql env now (rtrace t) (applyContext t) metadata line = None \<Longrightarrow>
           read_from_stream env (pre @ Line now line # rest) s =
             (False, record_event (RApplySql (action metadata) line False) (t\<lparr>clock := now\<rparr>))"
    and "read_from_stream env (pre @ ReadFailure # rest) s = (False, t)"
  using read_goes_on_before_endpos [OF assms]
  by (simp_all add: stream_replay_line_def call_helper_def)

text \<open>
  C2 (as amended). Whenever \<open>stream_apply_replay\<close> returns: either the last two things
  it did were closing the target connection and the synchronous sentinel update, whose
  outcome is the value returned; or it made no synchronous sentinel update at all, and
  then, if the value returned is success, it did nothing whatsoever (the exit taken when
  \<open>endpos\<close> was reached before the start). The first is the exit taken once the input
  was read without error and the sentinel query in flight was drained: the update then
  carries the \<open>replay_lsn\<close> of the context at that point. The exit taken when the
  read fails returns failure with the state the read left, and no synchronous update;
  so it is when, after a part of the stream that was read without stopping, the next line
  does not parse, or \<open>stream_apply_sql\<close> fails on it, or reading fails: the applier
  returns failure, in the state that part of the stream left (with the failed line's
  event, if it was handed to \<open>stream_apply_sql\<close>), and no synchronous update was made.
\<close>

theorem final_sentinel_sync_on_exit:
  assumes "stream_apply_replay env specs input = Some (r, s)"
  shows "((\<exists>evs pos. rtrace s = evs @ [RPgsqlFinish, RSyncSentinel pos r]) \<or>
          (\<not> list_ex is_sync_sentinel (rtrace s) \<and> (r \<longrightarrow> rtrace s = []))) \<and>
         (replay_setup env specs = Some c \<and> \<not> endpos_reached c \<and>
          src_pgsql_init_succeeds env c \<and>
          read_from_stream env input (replay_start c) = (True, t) \<and>
          drain_sentinel env t = Some (True, u) \<longrightarrow>
            rtrace s = rtrace u @ [RPgsqlFinish, RSyncSentinel (replay_lsn (applyContext u)) r]) \<and>
         (replay_setup env specs = Some c \<and> \<not> endpos_reached c \<and>
          src_pgsql_init_succeeds env c \<and>
          read_from_stream env input (replay_start c) = (False, t) \<longrightarrow>
            \<not> r \<and> s = t \<and> \<not> list_ex is_sync_sentinel (rtrace s)) \<and>
         (replay_setup env specs = Some c \<and> \<not> endpos_reached c \<and>
          src_pgsql_init_succeeds env c \<and>
          input = pre @ Line now line # rest \<and>
          read_from_stream env pre (replay_start c) = (True, t) \<and>
          \<not> reachedEndPos (applyContext t) \<and>
          parseSQLAction env line = None \<longrightarrow>
            \<not> r \<and> s = t\<lparr>clock := now\<rparr> \<and> \<not> list_ex is_sync_sentinel (rtrace s)) \<and>
         (replay_setup env specs = Some c \<and> \<not> endpos_reached c \<and>
          src_pgsql_init_succeeds env c \<and>
          input = pre @ Line now line # rest \<and>
          read_from_stream env pre (replay_start c) = (True, t) \<and>
          \<not> reachedEndPos (applyContext t) \<and>
          parseSQLAction env line = Some metadata \<and>
          stream_apply_sql env now (rtrace t) (applyContext t) metadata line = None \<longrightarrow>
            \<not> r \<and>
            s = record_event (RApplySql (action metadata) line False) (t\<lparr>clock := now\<rparr>) \<and>
            \<not> list_ex is_sync_sentinel (rtrace s)) \<and>
         (replay_setup env specs = Some c \<and> \<not> endpos_reached c \<and>
          src_pgsql_init_succeeds env c \<and>
          input = pre @ ReadFailure # rest \<and>
          read_from_stream env pre (replay_start c) = (True, t) \<and>
          \<not> reachedEndPos (applyContext t) \<longrightarrow>
            \<not> r \<and> s = t \<and> \<not> list_ex is_sync_sentinel (rtrace s))"
proof (intro conjI impI)
  show "(\<exists>evs pos. rtrace s = evs @ [RPgsqlFinish, RSyncSentinel pos r]) \<or>
        (\<not> list_ex is_sync_sentinel (rtrace s) \<and> (r \<longrightarrow> rtrace s = []))"
    using assms by (rule replay_exits)
next
  assume "replay_setup env specs = Some c \<and> \<not> endpos_reached c \<and>
          src_pgsql_init_succeeds env c \<and>
          read_from_stream env input (replay_start c) = (True, t) \<and>
          drain_sentinel env t = Some (True, u)"
  with assms show "rtrace s = rtrace u @ [RPgsqlFinish, RSyncSentinel (replay_lsn (applyContext u)) r]"
    using replay_after_read by blast
next
  assume a: "replay_setup env specs = Some c \<and> \<not> endpos_reached c \<and>
             src_pgsql_init_succeeds env c \<and>
             read_from_stream env input (replay_start c) = (False, t)"
  then have "replay_setup env specs = Some c" "\<not> endpos_reached c"
    "src_pgsql_init_succeeds env c" "read_from_stream env input (replay_start c) = (False, t)"
    by simp_all
  from replay_after_failed_read [OF this assms]
  show "\<not> r" and "s = t" and "\<not> list_ex is_sync_sentinel (rtrace s)"
    by blast+
next
  assume a: "replay_setup env specs = Some c \<and> \<not> endpos_reached c \<and>
             src_pgsql_init_succeeds env c \<and>
             input = pre @ Line now line # rest \<and>
             read_from_stream env pre (replay_start c) = (True, t) \<and>
             \<not> reachedEndPos (applyContext t) \<and>
             parseSQLAction env line = None"
  then have ready: "replay_setup env specs = Some c" "\<not> endpos_reached c"
    "src_pgsql_init_succeeds env c"
    and rd: "read_from_stream env pre (replay_start c) = (True, t)"
      "\<not> reachedEndPos (applyContext t)"
    and line: "parseSQLAction env line = None" and input: "input = pre @ Line now line # rest"
    by simp_all
  from read_fails_at_line(1) [OF rd line] input
  have "read_from_stream env input (replay_start c) = (False, t\<lparr>clock := now\<rparr>)"
    by simp
  from replay_after_failed_read [OF ready this assms]
  show "\<not> r" and "s = t\<lparr>clock := now\<rparr>" and "\<not> list_ex is_sync_sentinel (rtrace s)"
    by blast+
next
  assume a: "replay_setup env specs = Some c \<and> \<not> endpos_reached c \<and>
             src_pgsql_init_succeeds env c \<and>
             input = pre @ Line now line # rest \<and>
             read_from_stream env pre (replay_start c) = (True, t) \<and>
             \<not> reachedEndPos (applyContext t) \<and>
             parseSQLAction env line = Some metadata \<and>
             stream_apply_sql env now (rtrace t) (applyContext t) metadata line = None"
  then have ready: "replay_setup env specs = Some c" "\<not> endpos_reached c"
    "src_pgsql_init_succeeds env c"
    and rd: "read_from_stream env pre (replay_start c) = (True, t)"
      "\<not> reachedEndPos (applyContext t)"
    and line: "parseSQLAction env line = Some metadata"
      "stream_apply_sql env now (rtrace t) (applyContext t) metadata line = None"
    and input: "input = pre @ Line now line # rest"
    by simp_all
  from read_fails_at_line(2) [OF rd line] input
  have "read_from_stream env input (replay_start c) =
          (False, record_event (RApplySql (action metadata) line False) (t\<lparr>clock := now\<rparr>))"
    by simp
  from replay_after_failed_read [OF ready this assms]
  show "\<not> r"
    and "s = record_event (RApplySql (action metadata) line False) (t\<lparr>clock := now\<rparr>)"
    and "\<not> list_ex is_sync_sentinel (rtrace s)"
    by blast+
next
  assume a: "replay_setup env specs = Some c \<and> \<not> endpos_reached c \<and>
             src_pgsql_init_succeeds env c \<and>
             input = pre @ ReadFailure # rest \<and>
             read_from_stream env pre (replay_start c) = (True, t) \<and>
             \<not> reachedEndPos (applyContext t)"
  then have ready: "replay_setup env specs = Some c" "\<not> endpos_reached c"
    "src_pgsql_init_succeeds env c"
    and rd: "read_from_stream env pre (replay_start c) = (True, t)"
      "\<not> reachedEndPos (applyContext t)"
    and input: "input = pre @ ReadFailure # rest"
    by simp_all
  from read_fails_at_line(3) [OF rd] input
  have "read_from_stream env input (replay_start c) = (False, t)"
    by simp
  from replay_after_failed_read [OF ready this assms]
  show "\<not> r" and "s = t" and "\<not> list_ex is_sync_sentinel (rtrace s)"
    by blast+
qed

lemma ex_replay_result:
  "stream_apply_replay ex_replay_env (ex_stream_specs 100) ex_stream =
     Some (True, ex_drained_at_begin_150
             \<lparr> rtrace := rtrace ex_drained_at_begin_150 @ [RPgsqlFinish, RSyncSentinel 50 True] \<rparr>)"
  by (simp add: replay_defs replay_ex_defs drain_sentinel.simps Let_def)

lemma ex_read_begin_50:
  "read_from_stream ex_replay_env [Line 10 ''BEGIN 50''] (replay_start (ex_context 100)) =
     (True, ex_after_begin_50)"
  "read_from_stream ex_replay_env_insert_fails [Line 10 ''BEGIN 50'']
     (replay_start (ex_context 100)) = (True, ex_after_begin_50)"
  by (simp_all add: replay_defs replay_ex_defs replay_start_def Let_def)

lemma ex_replay_unparsed:
  "stream_apply_replay ex_replay_env (ex_stream_specs 100) ex_stream_unparsed =
     Some (False, ex_at_unparsed_line)"
  by (simp add: replay_defs replay_ex_defs Let_def)

lemma ex_replay_insert_fails:
  "replay_setup ex_replay_env_insert_fails (ex_stream_specs 100) = Some (ex_context 100)"
  "stream_apply_replay ex_replay_env_insert_fails (ex_stream_specs 100) ex_stream =
     Some (False, record_event (RApplySql STREAM_ACTION_INSERT ''INSERT'' False) ex_after_begin_50)"
  by (simp_all add: replay_defs replay_ex_defs Let_def)

theorem final_sentinel_sync_on_exit_witness:
  "(stream_apply_replay ex_replay_env (ex_stream_specs 100) ex_stream =
      Some (True, ex_drained_at_begin_150
              \<lparr> rtrace := rtrace ex_drained_at_begin_150 @ [RPgsqlFinish, RSyncSentinel 50 True] \<rparr>) \<and>
    replay_setup ex_replay_env (ex_stream_specs 100) = Some (ex_context 100) \<and>
    \<not> endpos_reached (ex_context 100) \<and>
    src_pgsql_init_succeeds ex_replay_env (ex_context 100) \<and>
    read_from_stream ex_replay_env ex_stream (replay_start (ex_context 100)) =
      (True, ex_stopped_at_begin_150) \<and>
    drain_sentinel ex_replay_env ex_stopped_at_begin_150 = Some (True, ex_drained_at_begin_150) \<and>
    replay_lsn (applyContext ex_drained_at_begin_150) = 50) \<and>
   (stream_apply_replay ex_replay_env (ex_stream_specs 100) ex_stream_unparsed =
      Some (False, ex_at_unparsed_line) \<and>
    ex_stream_unparsed = [Line 10 ''BEGIN 50''] @ Line 11 ''no such statement'' # [] \<and>
    read_from_stream ex_replay_env [Line 10 ''BEGIN 50''] (replay_start (ex_context 100)) =
      (True, ex_after_begin_50) \<and>
    parseSQLAction ex_replay_env ''no such statement'' = None \<and>
    ex_at_unparsed_line = ex_after_begin_50 \<lparr> clock := 11 \<rparr> \<and>
    \<not> list_ex is_sync_sentinel (rtrace ex_at_unparsed_line)) \<and>
   (stream_apply_replay ex_replay_env_insert_fails (ex_stream_specs 100) ex_stream =
      Some (False, record_event (RApplySql STREAM_ACTION_INSERT ''INSERT'' False) ex_after_begin_50) \<and>
    ex_stream = [Line 10 ''BEGIN 50''] @ Line 10 ''INSERT'' # drop 2 ex_stream \<and>
    read_from_stream ex_replay_env_insert_fails [Line 10 ''BEGIN 50'']
      (replay_start (ex_context 100)) = (True, ex_after_begin_50) \<and>
    parseSQLAction ex_replay_env_insert_fails ''INSERT'' = Some ex_insert \<and>
    stream_apply_sql ex_replay_env_insert_fails 10 (rtrace ex_after_begin_50)
      (applyContext ex_after_begin_50) ex_insert ''INSERT'' = None \<and>
    \<not> list_ex is_sync_sentinel
        (rtrace (record_event (RApplySql STREAM_ACTION_INSERT ''INSERT'' False) ex_after_begin_50)))"
proof -
  have init: "src_pgsql_init_succeeds ex_replay_env (ex_context 100)"
    "src_pgsql_init_succeeds ex_replay_env_insert_fails (ex_context 100)"
    by (simp_all add: ex_replay_env_def ex_replay_env_insert_fails_def)
  have pos: "replay_lsn (applyContext ex_drained_at_begin_150) = 50"
    by (simp add: ex_drained_at_begin_150_def)
  from final_sentinel_sync_on_exit [OF ex_replay_result, where c = "ex_context 100"
      and t = ex_stopped_at_begin_150 and u = ex_drained_at_begin_150]
    ex_setup [of 100] ex_endpos_reached(2) init ex_read_to_begin_150 ex_drain_at_begin_150 pos
  have normal: "rtrace (ex_drained_at_begin_150
                  \<lparr> rtrace := rtrace ex_drained_at_begin_150 @ [RPgsqlFinish, RSyncSentinel 50 True] \<rparr>) =
        rtrace ex_drained_at_begin_150 @ [RPgsqlFinish, RSyncSentinel 50 True]"
    by simp
  have unparsed: "ex_stream_unparsed = [Line 10 ''BEGIN 50''] @ Line 11 ''no such statement'' # []"
    "parseSQLAction ex_replay_env ''no such statement'' = None"
    by (simp_all add: ex_stream_unparsed_def ex_replay_env_def ex_parse_def)
  from final_sentinel_sync_on_exit [OF ex_replay_unparsed, where c = "ex_context 100"
      and pre = "[Line 10 ''BEGIN 50'']" and now = 11 and line = "''no such statement''"
      and rest = "[]" and t = ex_after_begin_50]
    ex_setup [of 100] ex_endpos_reached(2,5) init unparsed ex_read_begin_50(1)
  have parse_fails: "ex_at_unparsed_line = ex_after_begin_50 \<lparr> clock := 11 \<rparr> \<and>
                     \<not> list_ex is_sync_sentinel (rtrace ex_at_unparsed_line)"
    by simp
  have refused: "ex_stream = [Line 10 ''BEGIN 50''] @ Line 10 ''INSERT'' # drop 2 ex_stream"
    "parseSQLAction ex_replay_env_insert_fails ''INSERT'' = Some ex_insert"
    "stream_apply_sql ex_replay_env_insert_fails 10 (rtrace ex_after_begin_50)
       (applyContext ex_after_begin_50) ex_insert ''INSERT'' = None"
    by (simp_all add: ex_stream_def ex_stream_head_def ex_replay_env_insert_fails_def
        ex_replay_env_def ex_parse_def ex_insert_def)
  from final_sentinel_sync_on_exit [OF ex_replay_insert_fails(2), where c = "ex_context 100"
      and pre = "[Line 10 ''BEGIN 50'']" and now = 10 and line = "''INSERT''"
      and rest = "drop 2 ex_stream" and t = ex_after_begin_50 and metadata = ex_insert]
    ex_replay_insert_fails(1) ex_endpos_reached(2,5) init refused ex_read_begin_50(2)
  have apply_fails:
    "\<not> list_ex is_sync_sentinel
        (rtrace (record_event (RApplySql STREAM_ACTION_INSERT ''INSERT'' False) ex_after_begin_50))"
    by (simp add: ex_insert_def)
  from normal parse_fails apply_fails ex_replay_result ex_replay_unparsed ex_replay_insert_fails
    ex_setup [of 100] ex_endpos_reached(2) init ex_read_to_begin_150 ex_drain_at_begin_150 pos
    unparsed refused ex_read_begin_50
  show ?thesis
    by blast
qed

text \<open>
  The claim as first stated fails on the error exits. When a line of the stream does not
  parse, or reading the stream fails, or the target refuses a statement,
  \<open>stream_apply_replay\<close> returns failure and all it has done is to hand lines to
  \<open>stream_apply_sql\<close>: no sentinel update was made.
\<close>

theorem no_final_sync_on_error_counterexample:
  "stream_apply_replay ex_replay_env (ex_stream_specs 100)
     [Line 10 ''BEGIN 50'', Line 10 ''no such statement''] =
     Some (False, \<lparr> applyContext = ex_context 100,
                    rtrace = [RApplySql STREAM_ACTION_BEGIN ''BEGIN 50'' True],
                    clock = 10 \<rparr>) \<and>
   stream_apply_replay ex_replay_env (ex_stream_specs 100)
     [Line 10 ''BEGIN 50'', ReadFailure] =
     Some (False, \<lparr> applyContext = ex_context 100,
                    rtrace = [RApplySql STREAM_ACTION_BEGIN ''BEGIN 50'' True],
                    clock = 10 \<rparr>) \<and>
   stream_apply_replay ex_replay_env_insert_fails (ex_stream_specs 100)
     [Line 10 ''BEGIN 50'', Line 10 ''INSERT'', Line 10 ''COMMIT 50''] =
     Some (False, \<lparr> applyContext = ex_context 100,
                    rtrace = [RApplySql STREAM_ACTION_BEGIN ''BEGIN 50'' True,
                              RApplySql STREAM_ACTION_INSERT ''INSERT'' False],
                    clock = 10 \<rparr>)"
  by (simp add: replay_defs replay_ex_defs Let_def)

subsection \<open>Progress reports to the sentinel\<close>

lemma replay_line_progress:
  assumes "stream_replay_line env line s = (ok, stop, s')"
      and "parseSQLAction env line = Some metadata"
      and "stream_apply_sql env (clock s) (rtrace s) (applyContext s) metadata line = Some c"
  shows "\<exists>answered. drop (length (rtrace s)) (rtrace s') =
           RApplySql (action metadata) line True #
           (if is_progress_point (action metadata)
            then if sentinelQueryInProgress c then [RFetchSyncSentinel answered]
                 else if 1 < clock s - sentinelSyncTime c
                 then [RSendSyncSentinel (clock s) (replay_lsn c) answered]
                 else []
            else [])"
  using assms
  by (auto simp: stream_replay_line_def call_helper_def record_event_def is_progress_point_def
      Let_def split: option.splits prod.splits if_splits)

lemma replay_line_shape:
  assumes "stream_replay_line env line s = (ok, stop, s')"
  shows "\<exists>evs. rtrace s' = rtrace s @ evs \<and> is_line_events evs"
  using assms
  by (auto simp: stream_replay_line_def call_helper_def is_progress_point_def Let_def
      split: option.splits prod.splits if_splits)

lemma line_events_then_discipline:
  assumes "is_line_events evs" and "progress_discipline rest" and "starts_with_line rest"
  shows "progress_discipline (evs @ rest) \<and> starts_with_line (evs @ rest)"
proof -
  from assms(3) have rest_cases: "rest = [] \<or> (\<exists>act line ok tl. rest = RApplySql act line ok # tl)"
    by (cases rest rule: starts_with_line.cases) auto
  from assms(1) show ?thesis
  proof (cases evs rule: is_line_events.cases)
    case 1
    with assms show ?thesis by simp
  next
    case (2 act line ok)
    with assms rest_cases show ?thesis by auto
  next
    case (3 act line ok now pos sent)
    with assms show ?thesis by simp
  next
    case (4 act line ok fetched)
    with assms show ?thesis by simp
  qed (use assms(1) in auto)
qed

lemma read_discipline:
  assumes "read_from_stream env input s = (r, s')"
  shows "\<exists>evs. rtrace s' = rtrace s @ evs \<and> progress_discipline evs \<and> starts_with_line evs"
  using assms
proof (induction input arbitrary: s)
  case Nil
  then show ?case by simp
next
  case (Cons x input)
  show ?case
  proof (cases x)
    case (Line now line)
    obtain ok stop t
      where l: "stream_replay_line env line (s\<lparr>clock := now\<rparr>) = (ok, stop, t)"
      by (cases "stream_replay_line env line (s\<lparr>clock := now\<rparr>)") auto
    from replay_line_shape [OF l] obtain evs
      where e: "rtrace t = rtrace s @ evs" "is_line_events evs"
      by auto
    show ?thesis
    proof (cases "ok \<and> \<not> stop")
      case True
      with l Line Cons.prems have "read_from_stream env input t = (r, s')"
        by simp
      from Cons.IH [OF this] obtain rest
        where rest: "rtrace s' = rtrace t @ rest" "progress_discipline rest" "starts_with_line rest"
        by blast
      from line_events_then_discipline [OF e(2) rest(2) rest(3)] e(1) rest(1)
      have "rtrace s' = rtrace s @ (evs @ rest) \<and> progress_discipline (evs @ rest) \<and>
            starts_with_line (evs @ rest)"
        by simp
      then show ?thesis by blast
    next
      case False
      with l Line Cons.prems have "s' = t"
        by (auto split: bool.splits if_splits)
      moreover from line_events_then_discipline [OF e(2), of "[]"]
      have "progress_discipline evs \<and> starts_with_line evs"
        by simp
      ultimately show ?thesis using e(1) by blast
    qed
  next
    case ReadFailure
    with Cons.prems show ?thesis by simp
  qed
qed

lemma replay_line_in_flight:
  assumes "keeps_in_flight_flag env"
      and "stream_replay_line env line s = (ok, stop, s')"
      and "pending \<longrightarrow> sentinelQueryInProgress (applyContext s)"
  shows "\<exists>evs pending'. rtrace s' = rtrace s @ evs \<and>
           (pending' \<longrightarrow> sentinelQueryInProgress (applyContext s')) \<and>
           (\<forall>rest. one_in_flight pending' rest \<longrightarrow> one_in_flight pending (evs @ rest))"
proof (cases "parseSQLAction env line")
  case None
  with assms(2) have "s' = s"
    by (simp add: stream_replay_line_def)
  then have "rtrace s' = rtrace s @ [] \<and>
             (pending \<longrightarrow> sentinelQueryInProgress (applyContext s')) \<and>
             (\<forall>rest. one_in_flight pending rest \<longrightarrow> one_in_flight pending ([] @ rest))"
    using assms(3) by simp
  then show ?thesis by blast
next
  case (Some metadata)
  show ?thesis
  proof (cases "stream_apply_sql env (clock s) (rtrace s) (applyContext s) metadata line")
    case None
    with Some assms(2)
    have "rtrace s' = rtrace s @ [RApplySql (action metadata) line False]"
      "applyContext s' = applyContext s"
      by (auto simp: stream_replay_line_def call_helper_def Let_def)
    with assms(3)
    have "rtrace s' = rtrace s @ [RApplySql (action metadata) line False] \<and>
          (pending \<longrightarrow> sentinelQueryInProgress (applyContext s')) \<and>
          (\<forall>rest. one_in_flight pending rest \<longrightarrow>
                  one_in_flight pending ([RApplySql (action metadata) line False] @ rest))"
      by simp
    then show ?thesis by blast
  next
    case applied: (Some c)
    from assms(1) applied
    have flag: "sentinelQueryInProgress c = sentinelQueryInProgress (applyContext s)"
      by (auto simp: keeps_in_flight_flag_def)
    let ?a = "RApplySql (action metadata) line True"
    consider
      (quiet) "rtrace s' = rtrace s @ [?a]"
              "sentinelQueryInProgress (applyContext s') = sentinelQueryInProgress c"
    | (fetch) fetched where "rtrace s' = rtrace s @ [?a, RFetchSyncSentinel fetched]"
    | (send) sent where "rtrace s' = rtrace s @ [?a, RSendSyncSentinel (clock s) (replay_lsn c) sent]"
              "\<not> sentinelQueryInProgress c"
              "sent \<longrightarrow> sentinelQueryInProgress (applyContext s')"
      using assms(1,2) Some applied
      by (auto simp: stream_replay_line_def call_helper_def record_event_def
          keeps_in_flight_flag_def Let_def
          split: option.splits prod.splits if_splits)
    then show ?thesis
    proof cases
      case quiet
      with flag assms(3)
      have "rtrace s' = rtrace s @ [?a] \<and>
            (pending \<longrightarrow> sentinelQueryInProgress (applyContext s')) \<and>
            (\<forall>rest. one_in_flight pending rest \<longrightarrow> one_in_flight pending ([?a] @ rest))"
        by simp
      then show ?thesis by blast
    next
      case fetch
      then have "rtrace s' = rtrace s @ [?a, RFetchSyncSentinel fetched] \<and>
            (False \<longrightarrow> sentinelQueryInProgress (applyContext s')) \<and>
            (\<forall>rest. one_in_flight False rest \<longrightarrow>
                    one_in_flight pending ([?a, RFetchSyncSentinel fetched] @ rest))"
        by simp
      then show ?thesis by blast
    next
      case send
      from send(2) flag assms(3) have idle: "\<not> pending"
        by auto
      with send
      have "rtrace s' = rtrace s @ [?a, RSendSyncSentinel (clock s) (replay_lsn c) sent] \<and>
            (sent \<longrightarrow> sentinelQueryInProgress (applyContext s')) \<and>
            (\<forall>rest. one_in_flight sent rest \<longrightarrow>
                    one_in_flight pending
                      ([?a, RSendSyncSentinel (clock s) (replay_lsn c) sent] @ rest))"
        by simp
      then show ?thesis by blast
    qed
  qed
qed

lemma read_in_flight:
  assumes "keeps_in_flight_flag env"
      and "read_from_stream env input s = (r, s')"
      and "pending \<longrightarrow> sentinelQueryInProgress (applyContext s)"
  shows "one_in_flight pending (drop (length (rtrace s)) (rtrace s'))"
  using assms(2,3)
proof (induction input arbitrary: s pending)
  case Nil
  then show ?case by simp
next
  case (Cons x input)
  show ?case
  proof (cases x)
    case (Line now line)
    obtain ok stop t
      where l: "stream_replay_line env line (s\<lparr>clock := now\<rparr>) = (ok, stop, t)"
      by (cases "stream_replay_line env line (s\<lparr>clock := now\<rparr>)") auto
    from Cons.prems(2)
    have "pending \<longrightarrow> sentinelQueryInProgress (applyContext (s\<lparr>clock := now\<rparr>))"
      by simp
    from replay_line_in_flight [OF assms(1) l this] obtain evs pending'
      where e: "rtrace t = rtrace s @ evs"
        "pending' \<longrightarrow> sentinelQueryInProgress (applyContext t)"
        "\<forall>rest. one_in_flight pending' rest \<longrightarrow> one_in_flight pending (evs @ rest)"
      by auto
    show ?thesis
    proof (cases "ok \<and> \<not> stop")
      case True
      with l Line Cons.prems have rd: "read_from_stream env input t = (r, s')"
        by simp
      from read_events [OF rd] obtain rest where rest: "rtrace s' = rtrace t @ rest"
        by blast
      from Cons.IH [OF rd e(2)] rest have "one_in_flight pending' rest"
        by simp
      with e(3) have "one_in_flight pending (evs @ rest)"
        by blast
      with e(1) rest show ?thesis by simp
    next
      case False
      with l Line Cons.prems have "s' = t"
        by (auto split: bool.splits if_splits)
      moreover from e(3) have "one_in_flight pending (evs @ [])"
        by (metis one_in_flight.simps(1))
      ultimately show ?thesis using e(1) by simp
    qed
  next
    case ReadFailure
    with Cons.prems show ?thesis by simp
  qed
qed

subsection \<open>The rate of the progress reports\<close>

lemma send_times_append [simp]: "send_times (xs @ ys) = send_times xs @ send_times ys"
  by (induction xs rule: send_times.induct) simp_all

lemma over_a_second_apart_Cons:
  assumes "over_a_second_apart ts" and "\<forall>u \<in> set ts. t + 1 < u"
  shows "over_a_second_apart (t # ts)"
  using assms by (cases ts) simp_all

lemma over_a_second_since:
  fixes now last_sync :: "64 word"
  assumes "1 < now - last_sync" and "last_sync \<le> now"
  shows "unat last_sync + 1 < unat now"
proof -
  from assms(2) have "unat (now - last_sync) = unat now - unat last_sync"
    by (simp add: unat_sub)
  moreover from assms(1) have "1 < unat (now - last_sync)"
    by (simp add: word_less_nat_alt)
  ultimately show ?thesis
    by simp
qed

text \<open>
  One line, handled at a clock reading not before \<open>sentinelSyncTime\<close>: it sends at most
  one update, and that only when more than a second has passed since
  \<open>sentinelSyncTime\<close>, which the send then sets to the clock reading.
\<close>

lemma replay_line_rate:
  assumes "keeps_sync_time env"
      and "stream_replay_line env line s = (ok, stop, s')"
      and "sentinelSyncTime (applyContext s) \<le> clock s"
  shows "\<exists>evs. rtrace s' = rtrace s @ evs \<and>
           (sentinelSyncTime (applyContext s') = sentinelSyncTime (applyContext s) \<or>
            sentinelSyncTime (applyContext s') = clock s) \<and>
           (send_times evs = [] \<or>
            send_times evs = [unat (clock s)] \<and>
            unat (sentinelSyncTime (applyContext s)) + 1 < unat (clock s) \<and>
            (ok \<longrightarrow> sentinelSyncTime (applyContext s') = clock s))"
proof (cases "parseSQLAction env line")
  case None
  with assms(2) have "s' = s"
    by (simp add: stream_replay_line_def)
  then have "rtrace s' = rtrace s @ [] \<and>
             (sentinelSyncTime (applyContext s') = sentinelSyncTime (applyContext s) \<or>
              sentinelSyncTime (applyContext s') = clock s) \<and>
             send_times [] = []"
    by simp
  then show ?thesis by blast
next
  case (Some metadata)
  let ?T = "sentinelSyncTime (applyContext s)"
  show ?thesis
  proof (cases "stream_apply_sql env (clock s) (rtrace s) (applyContext s) metadata line")
    case None
    with Some assms(2)
    have "rtrace s' = rtrace s @ [RApplySql (action metadata) line False]"
      "applyContext s' = applyContext s"
      by (auto simp: stream_replay_line_def call_helper_def Let_def)
    then have "rtrace s' = rtrace s @ [RApplySql (action metadata) line False] \<and>
               (sentinelSyncTime (applyContext s') = ?T \<or>
                sentinelSyncTime (applyContext s') = clock s) \<and>
               send_times [RApplySql (action metadata) line False] = []"
      by simp
    then show ?thesis by blast
  next
    case applied: (Some c)
    from assms(1) applied
    have kept: "sentinelSyncTime c = ?T \<or> sentinelSyncTime c = clock s"
      unfolding keeps_sync_time_def by blast
    let ?a = "RApplySql (action metadata) line True"
    consider
      (quiet) "rtrace s' = rtrace s @ [?a]" "applyContext s' = c \<or>
                 applyContext s' = c\<lparr>reachedEndPos := True\<rparr>"
    | (fetch) fetched where "rtrace s' = rtrace s @ [?a, RFetchSyncSentinel fetched]"
              "sentinelSyncTime (applyContext s') = sentinelSyncTime c \<or>
               sentinelSyncTime (applyContext s') = clock s"
    | (send) sent where "rtrace s' = rtrace s @ [?a, RSendSyncSentinel (clock s) (replay_lsn c) sent]"
              "1 < clock s - sentinelSyncTime c"
              "sentinelSyncTime (applyContext s') = sentinelSyncTime c \<or>
               sentinelSyncTime (applyContext s') = clock s"
              "ok \<longrightarrow> sentinelSyncTime (applyContext s') = clock s"
      using assms(1,2) Some applied
      by (auto simp: stream_replay_line_def call_helper_def record_event_def
          keeps_sync_time_def Let_def
          split: option.splits prod.splits if_splits)
    then show ?thesis
    proof cases
      case quiet
      with kept
      have "rtrace s' = rtrace s @ [?a] \<and>
            (sentinelSyncTime (applyContext s') = ?T \<or>
             sentinelSyncTime (applyContext s') = clock s) \<and>
            send_times [?a] = []"
        by auto
      then show ?thesis by blast
    next
      case fetch
      with kept
      have "rtrace s' = rtrace s @ [?a, RFetchSyncSentinel fetched] \<and>
            (sentinelSyncTime (applyContext s') = ?T \<or>
             sentinelSyncTime (applyContext s') = clock s) \<and>
            send_times [?a, RFetchSyncSentinel fetched] = []"
        by auto
      then show ?thesis by blast
    next
      case send
      from send(2) have "sentinelSyncTime c \<noteq> clock s"
        by auto
      with kept have same: "sentinelSyncTime c = ?T"
        by simp
      with send(2) assms(3) have "unat ?T + 1 < unat (clock s)"
        using over_a_second_since by simp
      with send same
      have "rtrace s' = rtrace s @ [?a, RSendSyncSentinel (clock s) (replay_lsn c) sent] \<and>
            (sentinelSyncTime (applyContext s') = ?T \<or>
             sentinelSyncTime (applyContext s') = clock s) \<and>
            send_times [?a, RSendSyncSentinel (clock s) (replay_lsn c) sent] = [unat (clock s)] \<and>
            unat ?T + 1 < unat (clock s) \<and>
            (ok \<longrightarrow> sentinelSyncTime (applyContext s') = clock s)"
        by simp
      then show ?thesis by blast
    qed
  qed
qed

lemma read_rate:
  assumes "keeps_sync_time env"
  shows "read_from_stream env input s = (r, s') \<Longrightarrow>
         sentinelSyncTime (applyContext s) \<le> start \<Longrightarrow> clock_runs_forward start input \<Longrightarrow>
         over_a_second_apart (send_times (drop (length (rtrace s)) (rtrace s'))) \<and>
         (\<forall>u \<in> set (send_times (drop (length (rtrace s)) (rtrace s'))).
             unat (sentinelSyncTime (applyContext s)) + 1 < u)"
proof (induction input arbitrary: s start)
  case Nil
  then show ?case by simp
next
  case (Cons x input)
  show ?case
  proof (cases x)
    case ReadFailure
    with Cons.prems show ?thesis by simp
  next
    case (Line now line)
    let ?T = "sentinelSyncTime (applyContext s)"
    from Line Cons.prems(2,3) have now: "?T \<le> now" and forward: "clock_runs_forward now input"
      by auto
    obtain ok stop t
      where l: "stream_replay_line env line (s\<lparr>clock := now\<rparr>) = (ok, stop, t)"
      by (cases "stream_replay_line env line (s\<lparr>clock := now\<rparr>)") auto
    from now have "sentinelSyncTime (applyContext (s\<lparr>clock := now\<rparr>)) \<le> clock (s\<lparr>clock := now\<rparr>)"
      by simp
    from replay_line_rate [OF assms l this] obtain evs
      where e: "rtrace t = rtrace s @ evs"
        "sentinelSyncTime (applyContext t) = ?T \<or> sentinelSyncTime (applyContext t) = now"
        "send_times evs = [] \<or>
         send_times evs = [unat now] \<and> unat ?T + 1 < unat now \<and>
         (ok \<longrightarrow> sentinelSyncTime (applyContext t) = now)"
      by auto
    from e(2) now have later: "unat ?T \<le> unat (sentinelSyncTime (applyContext t))"
      "sentinelSyncTime (applyContext t) \<le> now"
      by (auto simp: word_le_nat_alt)
    show ?thesis
    proof (cases "ok \<and> \<not> stop")
      case False
      with l Line Cons.prems(1) have "s' = t"
        by (auto split: bool.splits if_splits)
      with e(1,3) show ?thesis
        by auto
    next
      case True
      with l Line Cons.prems(1) have rd: "read_from_stream env input t = (r, s')"
        by simp
      from read_events [OF rd] obtain rest where rest: "rtrace s' = rtrace t @ rest"
        by blast
      from Cons.IH [OF rd later(2) forward] rest
      have ih: "over_a_second_apart (send_times rest)"
        "\<forall>u \<in> set (send_times rest). unat (sentinelSyncTime (applyContext t)) + 1 < u"
        by simp_all
      from e(1) rest have new: "drop (length (rtrace s)) (rtrace s') = evs @ rest"
        by simp
      from e(3) show ?thesis
      proof
        assume "send_times evs = []"
        with ih later(1) new show ?thesis
          by auto
      next
        assume sent: "send_times evs = [unat now] \<and> unat ?T + 1 < unat now \<and>
                      (ok \<longrightarrow> sentinelSyncTime (applyContext t) = now)"
        with True have at_now: "sentinelSyncTime (applyContext t) = now"
          by simp
        with ih have "\<forall>u \<in> set (send_times rest). unat now + 1 < u"
          by simp
        with ih(1) sent new show ?thesis
          by (auto simp: over_a_second_apart_Cons)
      qed
    qed
  qed
qed

lemma ex_keeps_in_flight_flag: "keeps_in_flight_flag ex_replay_env"
  by (auto simp: keeps_in_flight_flag_def ex_replay_env_def spec_send_sync_sentinel_def
      spec_stream_apply_sql_def split: if_splits)

lemma ex_keeps_sync_time: "keeps_sync_time ex_replay_env"
  by (auto simp: keeps_sync_time_def ex_replay_env_def spec_send_sync_sentinel_def
      spec_fetch_sync_sentinel_def spec_stream_apply_sql_def split: if_splits)

text \<open>
  C6. A line that was parsed and applied adds to the trace the line applied and then: for
  a COMMIT or KEEPALIVE line, the fetch of the pending result when a sentinel query is in
  flight (and no new update); else a new asynchronous update when more than one second
  has passed since \<open>sentinelSyncTime\<close>; else nothing; and nothing for any other line.
  Over a whole read, every sentinel query sent or fetched comes right after a COMMIT or
  KEEPALIVE line, at most one for each such line; the helpers keeping the in-flight
  flag as the code expects, no update is sent while an earlier one is pending; and, the
  helpers keeping \<open>sentinelSyncTime\<close> as the code expects and the clock never running
  backwards, any update is sent more than one second after the one before: at most one
  in a second.
\<close>

theorem sentinel_progress_updates:
  "(stream_replay_line env line s = (ok, stop, s') \<and>
    parseSQLAction env line = Some metadata \<and>
    stream_apply_sql env (clock s) (rtrace s) (applyContext s) metadata line = Some c \<longrightarrow>
      (\<exists>answered. drop (length (rtrace s)) (rtrace s') =
         RApplySql (action metadata) line True #
         (if is_progress_point (action metadata)
          then if sentinelQueryInProgress c then [RFetchSyncSentinel answered]
               else if 1 < clock s - sentinelSyncTime c
               then [RSendSyncSentinel (clock s) (replay_lsn c) answered]
               else []
          else []))) \<and>
   (read_from_stream env input t = (r, t') \<longrightarrow>
      progress_discipline (drop (length (rtrace t)) (rtrace t'))) \<and>
   (keeps_in_flight_flag env \<and> read_from_stream env input t = (r, t') \<longrightarrow>
      one_in_flight (sentinelQueryInProgress (applyContext t))
        (drop (length (rtrace t)) (rtrace t'))) \<and>
   (keeps_sync_time env \<and>
    clock_runs_forward (sentinelSyncTime (applyContext t)) input \<and>
    read_from_stream env input t = (r, t') \<longrightarrow>
      over_a_second_apart (send_times (drop (length (rtrace t)) (rtrace t'))) \<and>
      (\<forall>sent \<in> set (send_times (drop (length (rtrace t)) (rtrace t'))).
          unat (sentinelSyncTime (applyContext t)) + 1 < sent))"
proof (intro conjI impI)
  assume "stream_replay_line env line s = (ok, stop, s') \<and>
          parseSQLAction env line = Some metadata \<and>
          stream_apply_sql env (clock s) (rtrace s) (applyContext s) metadata line = Some c"
  then show "\<exists>answered. drop (length (rtrace s)) (rtrace s') =
         RApplySql (action metadata) line True #
         (if is_progress_point (action metadata)
          then if sentinelQueryInProgress c then [RFetchSyncSentinel answered]
               else if 1 < clock s - sentinelSyncTime c
               then [RSendSyncSentinel (clock s) (replay_lsn c) answered]
               else []
          else [])"
    using replay_line_progress by blast
next
  assume "read_from_stream env input t = (r, t')"
  from read_discipline [OF this] show "progress_discipline (drop (length (rtrace t)) (rtrace t'))"
    by auto
next
  assume "keeps_in_flight_flag env \<and> read_from_stream env input t = (r, t')"
  then show "one_in_flight (sentinelQueryInProgress (applyContext t))
               (drop (length (rtrace t)) (rtrace t'))"
    using read_in_flight by blast
next
  assume a: "keeps_sync_time env \<and>
             clock_runs_forward (sentinelSyncTime (applyContext t)) input \<and>
             read_from_stream env input t = (r, t')"
  then have "keeps_sync_time env" "read_from_stream env input t = (r, t')"
    "sentinelSyncTime (applyContext t) \<le> sentinelSyncTime (applyContext t)"
    "clock_runs_forward (sentinelSyncTime (applyContext t)) input"
    by simp_all
  from read_rate [OF this]
  show "over_a_second_apart (send_times (drop (length (rtrace t)) (rtrace t')))"
    and "\<forall>sent \<in> set (send_times (drop (length (rtrace t)) (rtrace t'))).
            unat (sentinelSyncTime (applyContext t)) + 1 < sent"
    by simp_all
qed

theorem sentinel_progress_updates_witness:
  "parseSQLAction ex_replay_env ''KEEPALIVE 60'' = Some ex_keepalive \<and>
   stream_apply_sql ex_replay_env 12 (rtrace ex_after_commit_50) (applyContext ex_after_commit_50)
     ex_keepalive ''KEEPALIVE 60'' = Some (applyContext ex_after_commit_50) \<and>
   is_progress_point (action ex_keepalive) \<and>
   \<not> sentinelQueryInProgress (applyContext ex_after_commit_50) \<and>
   (1 :: 64 word) < 12 - sentinelSyncTime (applyContext ex_after_commit_50) \<and>
   (\<exists>answered.
      drop (length (rtrace ex_after_commit_50))
        (rtrace (snd (snd (stream_replay_line ex_replay_env ''KEEPALIVE 60''
                             (ex_after_commit_50 \<lparr> clock := 12 \<rparr>))))) =
      [RApplySql STREAM_ACTION_KEEPALIVE ''KEEPALIVE 60'' True, RSendSyncSentinel 12 50 answered]) \<and>
   keeps_in_flight_flag ex_replay_env \<and>
   keeps_sync_time ex_replay_env \<and>
   clock_runs_forward 9 ex_stream \<and>
   sentinelSyncTime (ex_context 0) = 9 \<and>
   read_from_stream ex_replay_env ex_stream (replay_start (ex_context 0)) =
     (True, ex_after_commit_200) \<and>
   progress_discipline (rtrace ex_after_commit_200) \<and>
   one_in_flight False (rtrace ex_after_commit_200) \<and>
   send_times (rtrace ex_after_commit_200) = [12, 15] \<and>
   over_a_second_apart (send_times (rtrace ex_after_commit_200))"
proof -
  let ?s = "ex_after_commit_50 \<lparr> clock := 12 \<rparr>"
  obtain ok stop s' where
    l: "stream_replay_line ex_replay_env ''KEEPALIVE 60'' ?s = (ok, stop, s')"
    by (cases "stream_replay_line ex_replay_env ''KEEPALIVE 60'' ?s") auto
  have parsed: "parseSQLAction ex_replay_env ''KEEPALIVE 60'' = Some ex_keepalive"
    by (simp add: ex_replay_env_def ex_parse_def ex_keepalive_def)
  have applied: "stream_apply_sql ex_replay_env 12 (rtrace ex_after_commit_50)
      (applyContext ex_after_commit_50) ex_keepalive ''KEEPALIVE 60'' =
      Some (applyContext ex_after_commit_50)"
    by (simp add: ex_replay_env_def spec_stream_apply_sql_def ex_keepalive_def)
  have facts: "is_progress_point (action ex_keepalive)"
    "\<not> sentinelQueryInProgress (applyContext ex_after_commit_50)"
    "(1 :: 64 word) < 12 - sentinelSyncTime (applyContext ex_after_commit_50)"
    "replay_lsn (applyContext ex_after_commit_50) = 50"
    "action ex_keepalive = STREAM_ACTION_KEEPALIVE"
    "rtrace (replay_start (ex_context 0)) = []"
    "\<not> sentinelQueryInProgress (applyContext (replay_start (ex_context 0)))"
    "sentinelSyncTime (applyContext (replay_start (ex_context 0))) = 9"
    "sentinelSyncTime (ex_context 0) = 9"
    by (simp_all add: is_progress_point_def ex_keepalive_def ex_after_commit_50_def ex_context_def
        replay_start_def)
  have forward: "clock_runs_forward 9 ex_stream"
    by (simp add: ex_stream_def ex_stream_head_def ex_stream_tail_def)
  have times: "send_times (rtrace ex_after_commit_200) = [12, 15]"
    by (simp add: ex_after_commit_200_def ex_events_to_keepalive_def)
  from sentinel_progress_updates [where env = ex_replay_env
      and line = "''KEEPALIVE 60''" and s = ?s and ok = ok and stop = stop
      and s' = s' and metadata = ex_keepalive and c = "applyContext ex_after_commit_50"
      and input = ex_stream and t = "replay_start (ex_context 0)" and r = True
      and t' = ex_after_commit_200]
    l parsed applied facts ex_read_to_commit_200 ex_keeps_in_flight_flag ex_keeps_sync_time forward
  have "(\<exists>answered. drop (length (rtrace ex_after_commit_50)) (rtrace s') =
           [RApplySql STREAM_ACTION_KEEPALIVE ''KEEPALIVE 60'' True,
            RSendSyncSentinel 12 50 answered]) \<and>
        progress_discipline (rtrace ex_after_commit_200) \<and>
        one_in_flight False (rtrace ex_after_commit_200) \<and>
        over_a_second_apart (send_times (rtrace ex_after_commit_200))"
    by simp
  with l parsed applied facts ex_read_to_commit_200 ex_keeps_in_flight_flag ex_keeps_sync_time
    forward times
  show ?thesis
    by simp
qed

end
